theory Spec2Isabelle
  imports Complex_Main "HOL-Library.AList" "HOL-Library.Char_ord" "HOL-Library.List_Lexorder"
begin

section \<open>Data model\<close>

text \<open>
  Modelled from the spec: the classes Player, Match, Round and Tournament are declared in
  the model package, which is not among the sources. The controller uses them through
  their attributes only; each becomes a record with the attributes the specification
  lists and the controller reads and writes. A Python dict is kept as the list of its
  items in insertion order, because the controller reads
  \<^verbatim>\<open>list(match.players.keys())[0]\<close> and \<^verbatim>\<open>[1]\<close>. Scores are the numbers 0,
  0.5 and 1 and their sums: rationals.
\<close>

type_synonym score = rat

type_synonym scores = "(string \<times> score) list"

record player =
  firstname :: string
  lastname :: string
  birth :: string
  national_chess_id :: string

record match =
  players :: "(player \<times> score) list"

record round =
  round_name :: string
  matches :: "match list"
  start_time :: "string option"
  end_time :: "string option"

record tournament =
  tournament_name :: string
  place :: string
  date_start :: string
  date_end :: string
  director_note :: string
  rounds :: "round list"
  current_round :: int
  players_list :: "player list"
  players_score :: scores

text \<open>An entry of players.json as \<^verbatim>\<open>json.load\<close> returns it: a dict from keys to strings.\<close>

type_synonym player_data = "(string \<times> string) list"

section \<open>Python primitives\<close>

datatype error = IndexError | KeyError | ValueError

text \<open>
  \<^verbatim>\<open>xs[i]\<close>: a negative index counts from the end; the result is the position read,
  or nothing where Python raises IndexError.
\<close>

definition py_index :: "'a list \<Rightarrow> int \<Rightarrow> nat option" where
  "py_index xs i =
     (let n = int (length xs); j = (if i < 0 then n + i else i)
      in if 0 \<le> j \<and> j < n then Some (nat j) else None)"

text \<open>
  \<^verbatim>\<open>sorted(xs, key=key, reverse=True)\<close>: CPython reverses the list, sorts it
  stably by ascending key, and reverses the result, which keeps elements with equal keys
  in their original order.
\<close>

definition sorted_reverse :: "('a \<Rightarrow> 'k::linorder) \<Rightarrow> 'a list \<Rightarrow> 'a list" where
  "sorted_reverse key xs = rev (sort_key key (rev xs))"

text \<open>
  A dict comprehension \<^verbatim>\<open>{k: v for ...}\<close>: the items are stored one after the
  other; storing under a key that is present replaces its value and keeps its position.
\<close>

definition dict_of_items :: "('k \<times> 'v) list \<Rightarrow> ('k \<times> 'v) list" where
  "dict_of_items kvs = fold (\<lambda>(k, v) d. AList.update k v d) kvs []"

text \<open>
  A line read by \<^verbatim>\<open>input()\<close> is a Python \<^verbatim>\<open>str\<close>: a sequence of Unicode code
  points. \<^verbatim>\<open>str.isdigit\<close> and \<^verbatim>\<open>int\<close> look each character up in the Unicode
  database of the interpreter: a character is a decimal digit with a value (the ASCII
  digits, the digits of other scripts), or a digit that is not decimal (the superscript
  digits such as U+00B2, the circled digits), or no digit. The database is not part of the
  program; the model is given it as a function on code points.
\<close>

type_synonym line = "nat list"

datatype numeric_type = Decimal nat | Digit | Not_a_digit

text \<open>
  \<^verbatim>\<open>s.isdigit()\<close>: the string is not empty and every character is a digit, decimal
  or not.
\<close>

definition isdigit :: "(nat \<Rightarrow> numeric_type) \<Rightarrow> line \<Rightarrow> bool" where
  "isdigit unicode s = (s \<noteq> [] \<and> list_all (\<lambda>c. unicode c \<noteq> Not_a_digit) s)"

text \<open>
  \<^verbatim>\<open>int(s)\<close> for a string of digits (the program calls it on strings that
  \<^verbatim>\<open>isdigit\<close> accepts, so signs, blanks and underscores do not occur): ValueError
  when a character is not a decimal digit, and when the string has more digits than
  \<^verbatim>\<open>sys.get_int_max_str_digits()\<close> allows (4300 by default since Python 3.11; 0
  and older versions: no limit; CPython looks at the limit for more than 640 digits only);
  the number in base ten otherwise.
\<close>

definition decimal_value :: "(nat \<Rightarrow> numeric_type) \<Rightarrow> nat \<Rightarrow> nat option" where
  "decimal_value unicode c = (case unicode c of Decimal d \<Rightarrow> Some d | _ \<Rightarrow> None)"

definition str_int :: "(nat \<Rightarrow> numeric_type) \<Rightarrow> nat \<Rightarrow> line \<Rightarrow> error + int" where
  "str_int unicode max_str_digits s =
     (if s = [] \<or> \<not> list_all (\<lambda>c. decimal_value unicode c \<noteq> None) s then Inl ValueError
      else if 640 < length s \<and> 0 < max_str_digits \<and> max_str_digits < length s
      then Inl ValueError
      else Inr (foldl (\<lambda>n c. 10 * n + int (the (decimal_value unicode c))) 0 s))"

text \<open>The f-string \<^verbatim>\<open>f"{player.firstname} {player.lastname}"\<close>.\<close>

definition display_name :: "player \<Rightarrow> string" where
  "display_name p = firstname p @ '' '' @ lastname p"

section \<open>Effects\<close>

text \<open>
  A call returns a value, raises, or blocks on an input that never comes. The state
  reached is kept in all three cases: what was printed before an exception stays
  printed.
\<close>

datatype 'a outcome = Returned 'a | Raised error | Blocked

text \<open>
  The trace records, in order, every line printed and every call that leaves the
  controller (views, repositories, the tournament's pairing method, the leaderboard
  function) with the arguments passed and the answer received.
\<close>

datatype event =
    Print_sorted_players_header
  | Print_indexed_player nat string string
  | Input_player_index line
  | Print_invalid_index
  | Print_invalid_number
  | Print_already_registered_header
  | Print_player_line string string
  | Print_info_min6_even
  | Display_add_player_menu int
  | Get_user_choice string
  | Print_already_added
  | Print_adding_player string string
  | Print_registered_header
  | Create_new_player "player option"
  | Print_new_player player
  | Add_tournament tournament
  | Print_players_added
  | Prompt_play_tournament bool
  | Print_count_refused
  | Confirm_return_to_main_menu bool
  | Print_invalid_choice
  | Print_round_title int
  | Generate_pairs_for_round tournament
  | Print_match string string score score
  | Calculate_leaderboard tournament scores
  | Ask_to_play_next_round bool
  | Print_final_ranking_header
  | Print_round_ranking_header int
  | Print_rank nat string string score

text \<open>
  The attributes of a TournamentController instance. The four collaborators set by
  \<^verbatim>\<open>__init__\<close> never change and are not fields. \<open>players_score_attr\<close> is the
  attribute \<^verbatim>\<open>self.players_score\<close>: \<open>None\<close> while \<^verbatim>\<open>hasattr\<close> is false.
\<close>

record controller =
  num_players :: int
  players_score_attr :: "scores option"

definition TournamentController_init :: controller where
  "TournamentController_init = \<lparr>num_players = 0, players_score_attr = None\<rparr>"

text \<open>
  The state the controller's methods run in: the controller itself, the tournament object
  passed to the method (Python passes the reference and the method mutates the object),
  the trace, the number of clock reads so far, the content of players.json, and what the
  user and the player controller will answer: the lines typed at the index prompt, the
  results of \<^verbatim>\<open>create_new_player\<close>, and the yes/no answers.
\<close>

record system =
  self :: controller
  tourn :: tournament
  trace :: "event list"
  clock :: nat
  players_json :: "player_data list"
  input_lines :: "line list"
  created :: "player option list"
  yes_no :: "bool list"

text \<open>
  What the controller is given: the score ledger \<^verbatim>\<open>Player.calculate_total_score\<close>,
  the pairs (with their scores) the pairing engine puts in the round it is called for, the
  formatted time of each clock read, and, of the interpreter, the Unicode database and
  the limit on the digits of an integer string.
\<close>

record params =
  calculate_total_score :: "player \<Rightarrow> round list \<Rightarrow> scores \<Rightarrow> score"
  pairing :: "tournament \<Rightarrow> match list"
  now :: "nat \<Rightarrow> string"
  unicode_numeric_type :: "nat \<Rightarrow> numeric_type"
  int_max_str_digits :: nat

definition emit :: "event list \<Rightarrow> system \<Rightarrow> system" where
  "emit es s = s\<lparr>trace := trace s @ es\<rparr>"

section \<open>repository/player\_repository.py\<close>

text \<open>
  Lines 31 to 34: the Player built from the four entries of \<open>player_data\<close>; a missing
  key raises KeyError. The constructor (model/player.py) is taken to store its four
  arguments.
\<close>

definition player_of_data :: "player_data \<Rightarrow> error + player" where
  "player_of_data d =
     (case (map_of d ''firstname'', map_of d ''lastname'', map_of d ''birth'',
            map_of d ''national chess ID'') of
        (Some f, Some l, Some b, Some i) \<Rightarrow>
          Inr \<lparr>firstname = f, lastname = l, birth = b, national_chess_id = i\<rparr>
      | _ \<Rightarrow> Inl KeyError)"

text \<open>
  \<open>get_selected_player\<close> reads lines until one is a valid index. It returns the outcome,
  what it printed, and the lines left. A line that \<^verbatim>\<open>isdigit\<close> accepts and
  \<^verbatim>\<open>int\<close> refuses raises ValueError out of the function; when no line is left the
  function waits at the prompt.
\<close>

fun get_selected_player ::
  "params \<Rightarrow> player_data list \<Rightarrow> line list \<Rightarrow>
   (player \<times> int) outcome \<times> event list \<times> line list" where
  "get_selected_player P sorted_players [] = (Blocked, [], [])"
| "get_selected_player P sorted_players (index_input # later) =
     (if isdigit (unicode_numeric_type P) index_input then
        (case str_int (unicode_numeric_type P) (int_max_str_digits P) index_input of
           Inl e \<Rightarrow> (Raised e, [Input_player_index index_input], later)
         | Inr index \<Rightarrow>
             if 1 \<le> index \<and> index \<le> int (length sorted_players) then
               (case player_of_data (sorted_players ! nat (index - 1)) of
                  Inr player_instance \<Rightarrow>
                    (Returned (player_instance, index), [Input_player_index index_input], later)
                | Inl e \<Rightarrow> (Raised e, [Input_player_index index_input], later))
             else
               (case get_selected_player P sorted_players later of
                  (r, out, rest) \<Rightarrow>
                    (r, Input_player_index index_input # Print_invalid_index # out, rest)))
      else
        (case get_selected_player P sorted_players later of
           (r, out, rest) \<Rightarrow>
             (r, Input_player_index index_input # Print_invalid_number # out, rest)))"

definition get_player_by_alphabetical_order :: "player_data list \<Rightarrow> error + player_data list" where
  "get_player_by_alphabetical_order loaded =
     (if list_all (\<lambda>x. map_of x ''lastname'' \<noteq> None) loaded
      then Inr (sort_key (\<lambda>x. the (map_of x ''lastname'')) loaded)
      else Inl KeyError)"

fun print_indexed :: "nat \<Rightarrow> player_data list \<Rightarrow> unit outcome \<times> event list" where
  "print_indexed i [] = (Returned (), [])"
| "print_indexed i (d # ds) =
     (case (map_of d ''lastname'', map_of d ''firstname'') of
        (Some l, Some f) \<Rightarrow>
          (case print_indexed (Suc i) ds of
             (r, out) \<Rightarrow> (r, Print_indexed_player (i + 1) l f # out))
      | _ \<Rightarrow> (Raised KeyError, []))"

definition display_players_by_index :: "system \<Rightarrow> player_data list outcome \<times> system" where
  "display_players_by_index s =
     (case get_player_by_alphabetical_order (players_json s) of
        Inl e \<Rightarrow> (Raised e, s)
      | Inr sorted_players \<Rightarrow>
          (case print_indexed 0 sorted_players of
             (Returned u, out) \<Rightarrow>
               (Returned sorted_players, emit (Print_sorted_players_header # out) s)
           | (Raised e, out) \<Rightarrow> (Raised e, emit (Print_sorted_players_header # out) s)
           | (Blocked, out) \<Rightarrow> (Blocked, emit (Print_sorted_players_header # out) s)))"

section \<open>controller/tournament\_controller.py: calculate\_leaderboard\<close>

definition leaderboard :: "params \<Rightarrow> tournament \<Rightarrow> scores \<Rightarrow> (player \<times> score) list" where
  "leaderboard P t previous_scores =
     map (\<lambda>p. (p, calculate_total_score P p (rounds t) previous_scores)) (players_list t)"

definition sorted_leaderboard :: "params \<Rightarrow> tournament \<Rightarrow> scores \<Rightarrow> (player \<times> score) list" where
  "sorted_leaderboard P t previous_scores = sorted_reverse snd (leaderboard P t previous_scores)"

text \<open>
  \<open>calculate_leaderboard\<close> returns the tournament with \<open>players_score\<close> assigned, and
  the lines it prints: the header, then one line per entry, numbered from 1.
\<close>

definition calculate_leaderboard :: "params \<Rightarrow> tournament \<Rightarrow> scores \<Rightarrow> tournament \<times> event list" where
  "calculate_leaderboard P t previous_scores =
     (let sl = sorted_leaderboard P t previous_scores;
          t' = t\<lparr>players_score := dict_of_items (map (\<lambda>(p, sc). (display_name p, sc)) sl)\<rparr>;
          header = (if current_round t' = int (length (rounds t')) - 1
                    then Print_final_ranking_header
                    else Print_round_ranking_header (current_round t' + 1))
      in (t', header # map (\<lambda>(i, (p, sc)). Print_rank i (firstname p) (lastname p) sc)
                        (zip [1..<Suc (length sl)] sl)))"

section \<open>model/tournament.py: generate\_pairs\_for\_round\<close>

text \<open>
  Modelled from the spec: \<^verbatim>\<open>Tournament.generate_pairs_for_round\<close> is in
  model/tournament.py, which is not among the sources. The specification says that it
  populates the matches of the current round in place and has no other output; which pairs
  it produces (and the scores an external collaborator reports into them) is the parameter
  \<open>pairing\<close>.
\<close>

definition generate_pairs_for_round :: "params \<Rightarrow> tournament \<Rightarrow> error + tournament" where
  "generate_pairs_for_round P t =
     (case py_index (rounds t) (current_round t) of
        None \<Rightarrow> Inl IndexError
      | Some i \<Rightarrow> Inr (t\<lparr>rounds := (rounds t)[i := (rounds t ! i)\<lparr>matches := pairing P t\<rparr>]\<rparr>))"

section \<open>controller/tournament\_controller.py: play\_tournament\<close>

text \<open>
  The local variable \<^verbatim>\<open>current_round\<close> of the loop body is a reference to the round
  object read at line 329; the model keeps the position \<open>i\<close> it was read at and goes
  through \<open>rounds (tourn s) ! i\<close>.
\<close>

definition set_start_time :: "params \<Rightarrow> nat \<Rightarrow> system \<Rightarrow> system" where
  "set_start_time P i s =
     (if start_time (rounds (tourn s) ! i) = None
      then s\<lparr>tourn := (tourn s)\<lparr>rounds :=
                (rounds (tourn s))[i := (rounds (tourn s) ! i)\<lparr>start_time := Some (now P (clock s))\<rparr>]\<rparr>,
             clock := Suc (clock s)\<rparr>
      else s)"

definition set_end_time :: "params \<Rightarrow> nat \<Rightarrow> system \<Rightarrow> system" where
  "set_end_time P i s =
     (if end_time (rounds (tourn s) ! i) = None
      then s\<lparr>tourn := (tourn s)\<lparr>rounds :=
                (rounds (tourn s))[i := (rounds (tourn s) ! i)\<lparr>end_time := Some (now P (clock s))\<rparr>]\<rparr>,
             clock := Suc (clock s)\<rparr>
      else s)"

text \<open>Lines 341 to 349: one line per match; a match with fewer than two players raises.\<close>

fun show_matches :: "match list \<Rightarrow> system \<Rightarrow> unit outcome \<times> system" where
  "show_matches [] s = (Returned (), s)"
| "show_matches (m # ms) s =
     (case players m of
        (player1, score1) # (player2, score2) # others \<Rightarrow>
          show_matches ms
            (emit [Print_match (display_name player1) (display_name player2) score1 score2] s)
      | _ \<Rightarrow> (Raised IndexError, s))"

text \<open>Lines 352 and 353.\<close>

definition previous_scores_of :: "controller \<Rightarrow> scores" where
  "previous_scores_of c = (case players_score_attr c of Some d \<Rightarrow> d | None \<Rightarrow> [])"

text \<open>Lines 331 to 360: the body of the loop up to the end time, for the round at \<open>i\<close>.\<close>

definition play_round :: "params \<Rightarrow> nat \<Rightarrow> system \<Rightarrow> unit outcome \<times> system" where
  "play_round P i s =
     (let s1 = emit [Print_round_title (current_round (tourn s) + 1)] s;
          s2 = set_start_time P i s1;
          s3 = emit [Generate_pairs_for_round (tourn s2)] s2
      in case generate_pairs_for_round P (tourn s3) of
           Inl e \<Rightarrow> (Raised e, s3)
         | Inr t \<Rightarrow>
             (case show_matches (matches (rounds t ! i)) (s3\<lparr>tourn := t\<rparr>) of
                (Returned u, s4) \<Rightarrow>
                  (let previous_scores = previous_scores_of (self s4);
                       s5 = emit [Calculate_leaderboard (tourn s4) previous_scores] s4;
                       (t', out) = calculate_leaderboard P (tourn s5) previous_scores;
                       s6 = emit out (s5\<lparr>tourn := t'\<rparr>)
                   in (Returned (), set_end_time P i s6))
              | (Raised e, s4) \<Rightarrow> (Raised e, s4)
              | (Blocked, s4) \<Rightarrow> (Blocked, s4)))"

definition advance :: "system \<Rightarrow> system" where
  "advance s = s\<lparr>tourn := (tourn s)\<lparr>current_round := current_round (tourn s) + 1\<rparr>\<rparr>"

text \<open>\<^verbatim>\<open>add_tournament(tournament)\<close> on a tournament repository.\<close>

definition save :: "system \<Rightarrow> system" where
  "save s = emit [Add_tournament (tourn s)] s"

subsection \<open>What one round changes\<close>

lemma emit_fields [simp]:
  "tourn (emit es s) = tourn s" "self (emit es s) = self s" "clock (emit es s) = clock s"
  "yes_no (emit es s) = yes_no s" "trace (emit es s) = trace s @ es"
  "input_lines (emit es s) = input_lines s" "created (emit es s) = created s"
  "players_json (emit es s) = players_json s"
  by (simp_all add: emit_def)

lemma emit_emit [simp]: "emit b (emit a s) = emit (a @ b) s"
  by (simp add: emit_def)

lemma emit_tourn_update [simp]: "(emit es s)\<lparr>tourn := t\<rparr> = emit es (s\<lparr>tourn := t\<rparr>)"
  by (simp add: emit_def)

lemma emit_yes_no_update [simp]: "(emit es s)\<lparr>yes_no := t\<rparr> = emit es (s\<lparr>yes_no := t\<rparr>)"
  by (simp add: emit_def)

lemma set_start_time_emit [simp]:
  "set_start_time P i (emit es s) = emit es (set_start_time P i s)"
  by (simp add: set_start_time_def emit_def)

lemma set_start_time_fields [simp]:
  "self (set_start_time P i s) = self s"
  "yes_no (set_start_time P i s) = yes_no s"
  "trace (set_start_time P i s) = trace s"
  "input_lines (set_start_time P i s) = input_lines s"
  "created (set_start_time P i s) = created s"
  "players_json (set_start_time P i s) = players_json s"
  "current_round (tourn (set_start_time P i s)) = current_round (tourn s)"
  "players_list (tourn (set_start_time P i s)) = players_list (tourn s)"
  "length (rounds (tourn (set_start_time P i s))) = length (rounds (tourn s))"
  by (simp_all add: set_start_time_def)

lemma set_end_time_fields [simp]:
  "self (set_end_time P i s) = self s"
  "yes_no (set_end_time P i s) = yes_no s"
  "trace (set_end_time P i s) = trace s"
  "input_lines (set_end_time P i s) = input_lines s"
  "created (set_end_time P i s) = created s"
  "players_json (set_end_time P i s) = players_json s"
  "current_round (tourn (set_end_time P i s)) = current_round (tourn s)"
  "players_list (tourn (set_end_time P i s)) = players_list (tourn s)"
  "length (rounds (tourn (set_end_time P i s))) = length (rounds (tourn s))"
  by (simp_all add: set_end_time_def)

lemma generate_pairs_fields:
  "generate_pairs_for_round P t = Inr t' \<Longrightarrow>
     current_round t' = current_round t \<and> players_list t' = players_list t \<and>
     length (rounds t') = length (rounds t)"
  by (auto simp: generate_pairs_for_round_def split: option.splits)

lemma calculate_leaderboard_fields [simp]:
  "current_round (fst (calculate_leaderboard P t prev)) = current_round t"
  "players_list (fst (calculate_leaderboard P t prev)) = players_list t"
  "rounds (fst (calculate_leaderboard P t prev)) = rounds t"
  by (simp_all add: calculate_leaderboard_def Let_def)

lemma py_index_bounds:
  "py_index xs i = Some k \<Longrightarrow> k < length xs \<and> i < int (length xs)"
  by (auto simp: py_index_def Let_def split: if_splits)

text \<open>The lines printed for the matches of a round.\<close>

definition is_match_line :: "event \<Rightarrow> bool" where
  "is_match_line e = (case e of Print_match a b c d \<Rightarrow> True | _ \<Rightarrow> False)"

lemma is_match_line_simps [simp]:
  "is_match_line (Print_match a b c d)"
  by (simp add: is_match_line_def)

lemma show_matches_result:
  "show_matches ms s = (r, s') \<Longrightarrow>
     \<exists>out. s' = emit out s \<and> list_all is_match_line out \<and> (r = Returned () \<or> r = Raised IndexError)"
proof (induction ms arbitrary: s)
  case Nil
  then show ?case by (auto simp: emit_def intro: exI [of _ "[]"])
next
  case (Cons m ms)
  show ?case
  proof (cases "players m")
    case Nil
    with Cons.prems show ?thesis by (auto simp: emit_def intro: exI [of _ "[]"])
  next
    case c1: (Cons a as)
    show ?thesis
    proof (cases as)
      case Nil
      with c1 Cons.prems show ?thesis
        by (auto simp: emit_def split: prod.splits intro: exI [of _ "[]"])
    next
      case c2: (Cons b bs)
      obtain p1 s1 p2 s2 where ab: "a = (p1, s1)" "b = (p2, s2)"
        by (cases a, cases b) auto
      from Cons.prems c1 c2 ab
      have "show_matches ms (emit [Print_match (display_name p1) (display_name p2) s1 s2] s) = (r, s')"
        by simp
      from Cons.IH [OF this] obtain out where
        "s' = emit out (emit [Print_match (display_name p1) (display_name p2) s1 s2] s)"
        "list_all is_match_line out" "r = Returned () \<or> r = Raised IndexError"
        by blast
      then show ?thesis
        by (intro exI [of _ "Print_match (display_name p1) (display_name p2) s1 s2 # out"])
           simp
    qed
  qed
qed

lemma play_round_result:
  assumes "play_round P i s = (r, s')"
  shows "case generate_pairs_for_round P (tourn (set_start_time P i s)) of
           Inl e \<Rightarrow> r = Raised e \<and>
             s' = emit [Print_round_title (current_round (tourn s) + 1),
                        Generate_pairs_for_round (tourn (set_start_time P i s))]
                    (set_start_time P i s)
         | Inr t \<Rightarrow> (\<exists>ms. list_all is_match_line ms \<and>
             (r = Raised IndexError \<and>
              s' = emit ([Print_round_title (current_round (tourn s) + 1),
                          Generate_pairs_for_round (tourn (set_start_time P i s))] @ ms)
                     ((set_start_time P i s)\<lparr>tourn := t\<rparr>)
              \<or> r = Returned () \<and>
              s' = set_end_time P i
                     (emit ([Print_round_title (current_round (tourn s) + 1),
                             Generate_pairs_for_round (tourn (set_start_time P i s))] @ ms @
                            Calculate_leaderboard t (previous_scores_of (self s)) #
                            snd (calculate_leaderboard P t (previous_scores_of (self s))))
                       ((set_start_time P i s)
                        \<lparr>tourn := fst (calculate_leaderboard P t (previous_scores_of (self s)))\<rparr>))))"
proof (cases "generate_pairs_for_round P (tourn (set_start_time P i s))")
  case (Inl e)
  with assms show ?thesis
    by (simp add: play_round_def Let_def)
next
  case (Inr t)
  let ?s3 = "emit [Print_round_title (current_round (tourn s) + 1),
                   Generate_pairs_for_round (tourn (set_start_time P i s))]
               ((set_start_time P i s)\<lparr>tourn := t\<rparr>)"
  obtain r4 s4 where sm: "show_matches (matches (rounds t ! i)) ?s3 = (r4, s4)"
    by (cases "show_matches (matches (rounds t ! i)) ?s3") auto
  from show_matches_result [OF sm] obtain ms where
    ms: "s4 = emit ms ?s3" "list_all is_match_line ms" "r4 = Returned () \<or> r4 = Raised IndexError"
    by blast
  from ms(3) show ?thesis
  proof
    assume "r4 = Returned ()"
    with assms Inr sm ms(1) have
      "r = Returned () \<and>
       s' = set_end_time P i
              (emit ([Print_round_title (current_round (tourn s) + 1),
                      Generate_pairs_for_round (tourn (set_start_time P i s))] @ ms @
                     Calculate_leaderboard t (previous_scores_of (self s)) #
                     snd (calculate_leaderboard P t (previous_scores_of (self s))))
                ((set_start_time P i s)
                 \<lparr>tourn := fst (calculate_leaderboard P t (previous_scores_of (self s)))\<rparr>))"
      by (simp add: play_round_def Let_def split_beta)
    with Inr ms(2) show ?thesis by auto
  next
    assume "r4 = Raised IndexError"
    with assms Inr sm ms(1) have
      "r = Raised IndexError \<and>
       s' = emit ([Print_round_title (current_round (tourn s) + 1),
                   Generate_pairs_for_round (tourn (set_start_time P i s))] @ ms)
              ((set_start_time P i s)\<lparr>tourn := t\<rparr>)"
      by (simp add: play_round_def Let_def)
    with Inr ms(2) show ?thesis by auto
  qed
qed

lemma play_round_shape:
  assumes "play_round P i s = (r, s')"
  shows "current_round (tourn s') = current_round (tourn s)"
    and "length (rounds (tourn s')) = length (rounds (tourn s))"
    and "players_list (tourn s') = players_list (tourn s)"
    and "self s' = self s"
    and "yes_no s' = yes_no s"
    and "input_lines s' = input_lines s"
    and "created s' = created s"
    and "players_json s' = players_json s"
  using play_round_result [OF assms]
  by (auto split: sum.splits dest: generate_pairs_fields)

subsection \<open>The loop\<close>

function play_tournament :: "params \<Rightarrow> system \<Rightarrow> unit outcome \<times> system" where
  "play_tournament P s =
     (if current_round (tourn s) \<le> int (length (rounds (tourn s))) then
        (case py_index (rounds (tourn s)) (current_round (tourn s)) of
           None \<Rightarrow> (Raised IndexError, s)
         | Some i \<Rightarrow>
             (case play_round P i s of
                (Returned u, s1) \<Rightarrow>
                  if current_round (tourn s1) = int (length (rounds (tourn s1))) - 1
                  then (Returned (), save (advance s1))
                  else
                    (case yes_no s1 of
                       [] \<Rightarrow> (Blocked, s1)
                     | answer # later \<Rightarrow>
                         (let s2 = emit [Ask_to_play_next_round answer] (s1\<lparr>yes_no := later\<rparr>)
                          in if \<not> answer then (Returned (), save (advance s2))
                             else play_tournament P (advance s2)))
              | (Raised e, s1) \<Rightarrow> (Raised e, s1)
              | (Blocked, s1) \<Rightarrow> (Blocked, s1)))
      else (Returned (), s))"
  by pat_completeness auto
termination
proof (relation "measure (\<lambda>(P, s). nat (int (length (rounds (tourn s))) + 1 - current_round (tourn s)))")
  show "wf (measure (\<lambda>(P, s). nat (int (length (rounds (tourn s))) + 1 - current_round (tourn s))))"
    by simp
next
  fix P s i x s1 u later answer s2
  assume le: "current_round (tourn s) \<le> int (length (rounds (tourn s)))"
    and pr: "(x, s1) = play_round P i s"
    and s2: "s2 = emit [Ask_to_play_next_round answer] (s1\<lparr>yes_no := later\<rparr>)"
  from play_round_shape(1,2) [OF pr [symmetric]] s2 le
  show "((P, advance s2), (P, s)) \<in>
          measure (\<lambda>(P, s). nat (int (length (rounds (tourn s))) + 1 - current_round (tourn s)))"
    by (simp add: advance_def)
qed

section \<open>controller/tournament\_controller.py: add\_players\_to\_tournament\<close>

definition player_line :: "player \<Rightarrow> event" where
  "player_line p = Print_player_line (firstname p) (lastname p)"

definition same_name :: "player \<Rightarrow> player \<Rightarrow> bool" where
  "same_name player selected_player =
     (firstname player = firstname selected_player \<and> lastname player = lastname selected_player)"

definition count_num_players :: "int \<Rightarrow> system \<Rightarrow> system" where
  "count_num_players k s = s\<lparr>self := (self s)\<lparr>num_players := num_players (self s) + k\<rparr>\<rparr>"

text \<open>
  One pass through the body of the \<^verbatim>\<open>while True\<close> loop, for the choice the user
  typed. The locals \<^verbatim>\<open>selected_players_index\<close> and \<^verbatim>\<open>selected_players\<close> are
  passed in and out. \<open>Continue\<close> is the next iteration (the end of the body or
  \<^verbatim>\<open>continue\<close>); \<open>Stop\<close> is \<^verbatim>\<open>break\<close> (the method then returns), an exception, or
  a call that blocks.
\<close>

datatype step = Continue "int list" "player list" system | Stop "unit outcome" system

definition registration_step ::
  "params \<Rightarrow> player_data list \<Rightarrow> string \<Rightarrow> int list \<Rightarrow> player list \<Rightarrow> system \<Rightarrow> step" where
  "registration_step P sorted_players_list user_choice selected_players_index selected_players s =
     (let s0 = emit [Display_add_player_menu (num_players (self s)), Get_user_choice user_choice] s in
      if user_choice = ''1'' then
        (case get_selected_player P sorted_players_list (input_lines s0) of
           (Returned (selected_player, index), out, rest) \<Rightarrow>
             (let s1 = emit out (s0\<lparr>input_lines := rest\<rparr>) in
              if list_ex (\<lambda>player. same_name player selected_player) selected_players
              then Continue selected_players_index selected_players (emit [Print_already_added] s1)
              else Continue (selected_players_index @ [index]) (selected_players @ [selected_player])
                     (emit (Print_adding_player (firstname selected_player) (lastname selected_player) #
                            Print_registered_header #
                            map player_line (selected_players @ [selected_player]))
                        (count_num_players 1 s1)))
         | (Raised e, out, rest) \<Rightarrow> Stop (Raised e) (emit out (s0\<lparr>input_lines := rest\<rparr>))
         | (Blocked, out, rest) \<Rightarrow> Stop Blocked (emit out (s0\<lparr>input_lines := rest\<rparr>)))
      else if user_choice = ''2'' then
        (case created s0 of
           [] \<Rightarrow> Stop Blocked s0
         | new_player # later \<Rightarrow>
             (let s1 = emit [Create_new_player new_player] (s0\<lparr>created := later\<rparr>) in
              case new_player of
                Some np \<Rightarrow>
                  Continue selected_players_index (selected_players @ [np])
                    (emit (Print_new_player np #
                           Print_adding_player (firstname np) (lastname np) #
                           Print_registered_header #
                           map player_line (selected_players @ [np]))
                       (count_num_players 1 s1))
              | None \<Rightarrow> Continue selected_players_index selected_players s1))
      else if user_choice = ''3'' then
        (if 6 \<le> length selected_players \<and> length selected_players mod 2 = 0 then
           (let s1 = s0\<lparr>tourn := (tourn s0)
                        \<lparr>players_list := players_list (tourn s0) @ selected_players\<rparr>\<rparr>;
                s2 = emit [Add_tournament (tourn s1), Print_players_added] s1
            in case yes_no s2 of
                 [] \<Rightarrow> Stop Blocked s2
               | answer # later \<Rightarrow>
                   (let s3 = emit [Prompt_play_tournament answer] (s2\<lparr>yes_no := later\<rparr>) in
                    if answer
                    then (case play_tournament P s3 of (r, s4) \<Rightarrow> Stop r s4)
                    else Stop (Returned ()) s3))
         else Continue selected_players_index selected_players (emit [Print_count_refused] s0))
      else if user_choice = ''q'' then
        (case yes_no s0 of
           [] \<Rightarrow> Stop Blocked s0
         | answer # later \<Rightarrow>
             (let s1 = emit [Confirm_return_to_main_menu answer] (s0\<lparr>yes_no := later\<rparr>) in
              if answer then Stop (Returned ()) s1
              else Continue selected_players_index selected_players s1))
      else Continue selected_players_index selected_players (emit [Print_invalid_choice] s0))"

text \<open>
  The loop, over the choices the user will type at the menu. When they run out the menu
  has been displayed once more and the loop waits.
\<close>

fun registration_loop ::
  "params \<Rightarrow> player_data list \<Rightarrow> string list \<Rightarrow> int list \<Rightarrow> player list \<Rightarrow> system \<Rightarrow>
   unit outcome \<times> system" where
  "registration_loop P sorted_players_list [] selected_players_index selected_players s =
     (Blocked, emit [Display_add_player_menu (num_players (self s))] s)"
| "registration_loop P sorted_players_list (user_choice # choices) selected_players_index
     selected_players s =
     (case registration_step P sorted_players_list user_choice selected_players_index
             selected_players s of
        Continue selected_players_index' selected_players' s' \<Rightarrow>
          registration_loop P sorted_players_list choices selected_players_index'
            selected_players' s'
      | Stop r s' \<Rightarrow> (r, s'))"

text \<open>Lines 180 to 196, then the loop.\<close>

definition add_players_to_tournament :: "params \<Rightarrow> string list \<Rightarrow> system \<Rightarrow> unit outcome \<times> system" where
  "add_players_to_tournament P choices s =
     (case display_players_by_index s of
        (Returned sorted_players_list, s0) \<Rightarrow>
          (let selected_players = players_list (tourn s0);
               s1 = count_num_players (int (length (players_list (tourn s0)))) s0;
               s2 = (if players_list (tourn s1) \<noteq> []
                     then (emit (Print_already_registered_header #
                                 map player_line selected_players) s1)
                          \<lparr>tourn := (tourn s1)\<lparr>players_list := []\<rparr>\<rparr>
                     else s1);
               s3 = emit [Print_info_min6_even] s2
           in registration_loop P sorted_players_list choices [] selected_players s3)
      | (Raised e, s0) \<Rightarrow> (Raised e, s0)
      | (Blocked, s0) \<Rightarrow> (Blocked, s0))"

section \<open>controller/tournament\_controller.py: resume\_tournament\<close>

text \<open>
  Modelled from the spec: the repository's \<^verbatim>\<open>resume_tournament\<close> dialogue and
  \<^verbatim>\<open>Tournament.from_json\<close> are not among the sources. The specification says that a
  load reconstructs the object graph that was saved; \<open>chosen_tournament\<close> is that
  tournament, or \<open>None\<close> when the user chose nothing.
\<close>

definition resume_tournament :: "params \<Rightarrow> tournament option \<Rightarrow> system \<Rightarrow> unit outcome \<times> system" where
  "resume_tournament P chosen_tournament s =
     (case chosen_tournament of
        Some t \<Rightarrow> play_tournament P (s\<lparr>tourn := t\<rparr>)
      | None \<Rightarrow> (Returned (), s))"

section \<open>A sample tournament\<close>

text \<open>
  Concrete collaborators and data, to run the model on: six players, two rounds, a pairing
  that pairs the players in list order and lets the first of each pair win, a ledger that
  sums a player's scores over all matches, a clock whose readings all differ, the Unicode
  database on the code points below 256 (the ASCII digits are decimal; the superscripts
  U+00B2, U+00B3 and U+00B9 are digits that are not decimal), and the default limit of
  4300 digits.
\<close>

definition latin1_numeric_type :: "nat \<Rightarrow> numeric_type" where
  "latin1_numeric_type c =
     (if 48 \<le> c \<and> c \<le> 57 then Decimal (c - 48)
      else if c = 178 \<or> c = 179 \<or> c = 185 then Digit
      else Not_a_digit)"

text \<open>The code points of a string of such characters.\<close>

definition line_of :: "string \<Rightarrow> line" where
  "line_of str = map of_char str"

definition mk_player :: "string \<Rightarrow> string \<Rightarrow> player" where
  "mk_player f l =
     \<lparr>firstname = f, lastname = l, birth = ''01-01-2000'', national_chess_id = ''AB12345''\<rparr>"

definition six_players :: "player list" where
  "six_players =
     [mk_player ''Ann'' ''Arc'', mk_player ''Bob'' ''Bay'', mk_player ''Cid'' ''Cox'',
      mk_player ''Dan'' ''Dix'', mk_player ''Eve'' ''Elm'', mk_player ''Fay'' ''Fox'']"

fun pair_up :: "player list \<Rightarrow> match list" where
  "pair_up (a # b # rest) = \<lparr>players = [(a, 1), (b, 0)]\<rparr> # pair_up rest"
| "pair_up rest = []"

definition match_total :: "player \<Rightarrow> round list \<Rightarrow> scores \<Rightarrow> score" where
  "match_total p rs previous_scores =
     sum_list (map snd (filter (\<lambda>(q, sc). q = p)
       (concat (map players (concat (map matches rs))))))"

definition sample_params :: params where
  "sample_params =
     \<lparr>calculate_total_score = match_total,
      pairing = (\<lambda>t. pair_up (players_list t)),
      now = (\<lambda>n. ''time '' @ replicate n (CHR ''i'')),
      unicode_numeric_type = latin1_numeric_type,
      int_max_str_digits = 4300\<rparr>"

definition empty_round :: "string \<Rightarrow> round" where
  "empty_round n = \<lparr>round_name = n, matches = [], start_time = None, end_time = None\<rparr>"

definition sample_tournament :: "int \<Rightarrow> player list \<Rightarrow> tournament" where
  "sample_tournament k ps =
     \<lparr>tournament_name = ''Open'', place = ''Paris'', date_start = ''01-11-2026'',
      date_end = ''02-11-2026'', director_note = [],
      rounds = [empty_round ''Round 1'', empty_round ''Round 2''], current_round = k,
      players_list = ps, players_score = []\<rparr>"

definition sample_system :: "tournament \<Rightarrow> bool list \<Rightarrow> system" where
  "sample_system t answers =
     \<lparr>self = TournamentController_init, tourn = t, trace = [], clock = 0,
      players_json = [], input_lines = [], created = [], yes_no = answers\<rparr>"

section \<open>The loop of play\_tournament on a finished tournament\<close>

lemma play_tournament_at_end:
  "current_round (tourn s) = int (length (rounds (tourn s))) \<Longrightarrow>
     play_tournament P s = (Raised IndexError, s)"
  by (simp add: py_index_def)

text \<open>
  C1. A tournament whose \<open>current_round\<close> lies in \<open>[0, len(rounds)]\<close> should make the
  loop stop once \<open>current_round\<close> is past the last round index, and a finished tournament
  should read no round out of bounds. The loop condition is
  \<^verbatim>\<open>current_round <= len(rounds)\<close>: on the finished sample tournament (two rounds,
  \<open>current_round = 2\<close>) the body is entered and \<^verbatim>\<open>tournament.rounds[2]\<close> raises
  IndexError before anything is printed.
\<close>

theorem play_tournament_finished_raises:
  "play_tournament sample_params (sample_system (sample_tournament 2 six_players) []) =
     (Raised IndexError, sample_system (sample_tournament 2 six_players) [])"
  by (rule play_tournament_at_end) (simp add: sample_system_def sample_tournament_def)

section \<open>The leaderboard\<close>

lemma sorted_reverse_sorted:
  "sorted_wrt (\<lambda>a b. key b \<le> key a) (sorted_reverse key xs)"
proof -
  have "sorted (map key (sort_key key (rev xs)))" by simp
  then have "sorted_wrt (\<lambda>a b. key a \<le> key b) (sort_key key (rev xs))"
    by (simp only: sorted_map)
  then show ?thesis
    unfolding sorted_reverse_def by (simp add: sorted_wrt_rev)
qed

lemma sorted_reverse_stable:
  "filter (\<lambda>x. key x = k) (sorted_reverse key xs) = filter (\<lambda>x. key x = k) xs"
proof -
  have "filter (\<lambda>x. key x = k) (sort_key key (rev xs)) = filter (\<lambda>x. key x = k) (rev xs)"
    by (rule sort_key_stable)
  then have "rev (filter (\<lambda>x. key x = k) (sort_key key (rev xs))) = filter (\<lambda>x. key x = k) xs"
    by (simp add: rev_filter)
  then show ?thesis
    unfolding sorted_reverse_def by (simp add: rev_filter)
qed

lemma sorted_reverse_set [simp]: "set (sorted_reverse key xs) = set xs"
  by (simp add: sorted_reverse_def)

lemma sorted_reverse_length [simp]: "length (sorted_reverse key xs) = length xs"
  by (simp add: sorted_reverse_def)

text \<open>
  C4. The sequence \<open>calculate_leaderboard\<close> prints is the sorted leaderboard, numbered
  from 1. It is in descending order of score, it has one entry per registered player with
  that player's total score, and for every score \<open>sc\<close> the players with that score stand
  in it in the order they have in \<open>players_list\<close>: the sort is stable and no other
  criterion orders them.
\<close>

theorem calculate_leaderboard_sorted_stable:
  "sorted_wrt (\<lambda>a b. snd b \<le> snd a) (sorted_leaderboard P t previous_scores) \<and>
   length (sorted_leaderboard P t previous_scores) = length (players_list t) \<and>
   map fst (filter (\<lambda>e. snd e = sc) (sorted_leaderboard P t previous_scores)) =
     filter (\<lambda>p. calculate_total_score P p (rounds t) previous_scores = sc) (players_list t) \<and>
   map snd (sorted_leaderboard P t previous_scores) =
     map (\<lambda>p. calculate_total_score P p (rounds t) previous_scores)
       (map fst (sorted_leaderboard P t previous_scores)) \<and>
   tl (snd (calculate_leaderboard P t previous_scores)) =
     map (\<lambda>(i, (p, s)). Print_rank i (firstname p) (lastname p) s)
       (zip [1..<Suc (length (players_list t))] (sorted_leaderboard P t previous_scores))"
proof -
  let ?sl = "sorted_leaderboard P t previous_scores"
  let ?lb = "leaderboard P t previous_scores"
  have 1: "sorted_wrt (\<lambda>a b. snd b \<le> snd a) ?sl"
    unfolding sorted_leaderboard_def by (rule sorted_reverse_sorted)
  have 2: "length ?sl = length (players_list t)"
    by (simp add: sorted_leaderboard_def leaderboard_def)
  have "filter (\<lambda>e. snd e = sc) ?sl = filter (\<lambda>e. snd e = sc) ?lb"
    unfolding sorted_leaderboard_def by (rule sorted_reverse_stable)
  then have 3: "map fst (filter (\<lambda>e. snd e = sc) ?sl) =
      filter (\<lambda>p. calculate_total_score P p (rounds t) previous_scores = sc) (players_list t)"
    by (simp add: leaderboard_def filter_map comp_def)
  have "\<forall>e \<in> set ?sl. snd e = calculate_total_score P (fst e) (rounds t) previous_scores"
    by (auto simp: sorted_leaderboard_def leaderboard_def)
  then have 4: "map snd ?sl =
      map (\<lambda>p. calculate_total_score P p (rounds t) previous_scores) (map fst ?sl)"
    by (simp add: comp_def)
  have 5: "tl (snd (calculate_leaderboard P t previous_scores)) =
     map (\<lambda>(i, (p, s)). Print_rank i (firstname p) (lastname p) s)
       (zip [1..<Suc (length (players_list t))] ?sl)"
    using 2 by (simp add: calculate_leaderboard_def Let_def)
  from 1 2 3 4 5 show ?thesis by blast
qed

lemma map_of_fold_update:
  "map_of (fold (\<lambda>(k, v) d. AList.update k v d) kvs d) = map_of d ++ map_of (rev kvs)"
proof (induction kvs arbitrary: d)
  case Nil
  then show ?case by simp
next
  case (Cons kv kvs)
  obtain k v where kv: "kv = (k, v)" by (cases kv)
  have "map_of (AList.update k v d) ++ map_of (rev kvs) =
        map_of d ++ (map_of (rev kvs @ [(k, v)]))"
    by (simp add: update_conv' map_add_upd_left fun_eq_iff map_add_def split: option.splits)
  with Cons.IH [of "AList.update k v d"] kv show ?case by simp
qed

lemma distinct_fold_update:
  "distinct (map fst d) \<Longrightarrow> distinct (map fst (fold (\<lambda>(k, v) d. AList.update k v d) kvs d))"
  by (induction kvs arbitrary: d) (auto simp: distinct_update)

lemma dict_of_items_map_of: "map_of (dict_of_items kvs) = map_of (rev kvs)"
  by (simp add: dict_of_items_def map_of_fold_update)

lemma dict_of_items_distinct: "distinct (map fst (dict_of_items kvs))"
  by (simp add: dict_of_items_def distinct_fold_update)

lemma dict_of_items_keys: "fst ` set (dict_of_items kvs) = fst ` set kvs"
proof -
  have "dom (map_of (dict_of_items kvs)) = dom (map_of (rev kvs))"
    by (simp add: dict_of_items_map_of)
  then show ?thesis by (simp add: dom_map_of_conv_image_fst)
qed

lemma map_of_rev_last:
  "k \<in> fst ` set xs \<Longrightarrow> map_of (rev xs) k = Some (snd (last (filter (\<lambda>e. fst e = k) xs)))"
proof (induction xs rule: rev_induct)
  case Nil
  then show ?case by simp
next
  case (snoc x xs)
  show ?case
  proof (cases "fst x = k")
    case True
    then show ?thesis by (cases x) simp
  next
    case False
    with snoc.prems have "k \<in> fst ` set xs" by auto
    from snoc.IH [OF this] False show ?thesis by (cases x) simp
  qed
qed


lemma sorted_leaderboard_set:
  "set (sorted_leaderboard P t prev) =
     (\<lambda>p. (p, calculate_total_score P p (rounds t) prev)) ` set (players_list t)"
  by (simp add: sorted_leaderboard_def leaderboard_def)

definition twin :: player where
  "twin = \<lparr>firstname = ''Ann'', lastname = ''Arc'', birth = ''02-02-2002'',
           national_chess_id = ''CD67890''\<rparr>"

definition twin_tournament :: tournament where
  "twin_tournament =
     (sample_tournament 0 [mk_player ''Ann'' ''Arc'', mk_player ''Bob'' ''Bay'', twin])
     \<lparr>rounds := [\<lparr>round_name = ''Round 1'',
                  matches = [\<lparr>players = [(mk_player ''Ann'' ''Arc'', 1), (mk_player ''Bob'' ''Bay'', 0)]\<rparr>,
                             \<lparr>players = [(twin, 1 / 2), (mk_player ''Cid'' ''Cox'', 1 / 2)]\<rparr>],
                  start_time = None, end_time = None\<rparr>]\<rparr>"

text \<open>
  C8. After \<open>calculate_leaderboard\<close>, \<open>players_score\<close> of the tournament is a dict
  whose keys are the display names of the registered players, each once. A registered
  player's display name maps to the score of the last entry of the sorted leaderboard
  that has this display name; so it maps to the player's own score when no other
  registered player has the same display name, and with two players of the same name
  the later in sorted order overwrites the earlier.
\<close>

theorem calculate_leaderboard_players_score:
  assumes "p \<in> set (players_list t)"
  shows "distinct (map fst (players_score (fst (calculate_leaderboard P t previous_scores)))) \<and>
         fst ` set (players_score (fst (calculate_leaderboard P t previous_scores))) =
           display_name ` set (players_list t) \<and>
         map_of (players_score (fst (calculate_leaderboard P t previous_scores))) (display_name p) =
           Some (snd (last (filter (\<lambda>e. display_name (fst e) = display_name p)
                              (sorted_leaderboard P t previous_scores)))) \<and>
         ((\<forall>q \<in> set (players_list t). display_name q = display_name p \<longrightarrow> q = p) \<longrightarrow>
          map_of (players_score (fst (calculate_leaderboard P t previous_scores))) (display_name p) =
            Some (calculate_total_score P p (rounds t) previous_scores))"
proof -
  let ?sl = "sorted_leaderboard P t previous_scores"
  let ?g = "\<lambda>(q, sc). (display_name q, sc) :: string \<times> score"
  let ?items = "map ?g ?sl"
  let ?ps = "players_score (fst (calculate_leaderboard P t previous_scores))"
  let ?same = "filter (\<lambda>e. display_name (fst e) = display_name p) ?sl"
  have ps: "?ps = dict_of_items ?items"
    by (simp add: calculate_leaderboard_def Let_def)
  have keys: "fst ` set ?items = display_name ` set (players_list t)"
    by (force simp: sorted_leaderboard_set image_iff)
  have 1: "distinct (map fst ?ps)"
    by (simp only: ps dict_of_items_distinct)
  have 2: "fst ` set ?ps = display_name ` set (players_list t)"
    by (simp only: ps dict_of_items_keys keys)
  from assms keys have k: "display_name p \<in> fst ` set ?items" by blast
  have flt: "filter (\<lambda>e. fst e = display_name p) ?items = map ?g ?same"
    by (simp add: filter_map comp_def split_beta)
  from assms have "(p, calculate_total_score P p (rounds t) previous_scores) \<in> set ?sl"
    by (simp add: sorted_leaderboard_set)
  then have ne: "?same \<noteq> []"
    by (force simp: filter_empty_conv)
  have "map_of ?ps (display_name p) = map_of (rev ?items) (display_name p)"
    by (simp only: ps dict_of_items_map_of)
  also have "\<dots> = Some (snd (last (filter (\<lambda>e. fst e = display_name p) ?items)))"
    by (rule map_of_rev_last [OF k])
  also have "\<dots> = Some (snd (last ?same))"
    using ne by (simp only: flt) (simp add: last_map split_beta)
  finally have 3: "map_of ?ps (display_name p) = Some (snd (last ?same))" .
  have 4: "map_of ?ps (display_name p) = Some (calculate_total_score P p (rounds t) previous_scores)"
    if uniq: "\<forall>q \<in> set (players_list t). display_name q = display_name p \<longrightarrow> q = p"
  proof -
    from ne have "last ?same \<in> set ?same" by (rule last_in_set)
    then have "last ?same \<in> set ?sl" "display_name (fst (last ?same)) = display_name p"
      by auto
    then obtain q where "q \<in> set (players_list t)"
        "last ?same = (q, calculate_total_score P q (rounds t) previous_scores)"
        "display_name q = display_name p"
      by (auto simp: sorted_leaderboard_set)
    with uniq have "last ?same = (p, calculate_total_score P p (rounds t) previous_scores)"
      by auto
    with 3 show ?thesis by simp
  qed
  from 1 2 3 4 show ?thesis by blast
qed

lemma twin_sorted:
  "sorted_leaderboard sample_params twin_tournament [] =
     [(mk_player ''Ann'' ''Arc'', 1), (twin, 1 / 2), (mk_player ''Bob'' ''Bay'', 0)]"
  by code_simp

theorem calculate_leaderboard_players_score_witness:
  "twin \<in> set (players_list twin_tournament) \<and>
   mk_player ''Bob'' ''Bay'' \<in> set (players_list twin_tournament) \<and>
   players_score (fst (calculate_leaderboard sample_params twin_tournament [])) =
     [(''Ann Arc'', 1 / 2), (''Bob Bay'', 0)] \<and>
   map_of (players_score (fst (calculate_leaderboard sample_params twin_tournament [])))
     (display_name (mk_player ''Ann'' ''Arc'')) = Some (1 / 2) \<and>
   map_of (players_score (fst (calculate_leaderboard sample_params twin_tournament [])))
     (display_name (mk_player ''Bob'' ''Bay'')) =
     Some (calculate_total_score sample_params (mk_player ''Bob'' ''Bay'')
             (rounds twin_tournament) [])"
proof -
  have ann: "mk_player ''Ann'' ''Arc'' \<in> set (players_list twin_tournament)"
    by (simp add: twin_tournament_def sample_tournament_def)
  have bob: "mk_player ''Bob'' ''Bay'' \<in> set (players_list twin_tournament)"
    by (simp add: twin_tournament_def sample_tournament_def)
  have tw: "twin \<in> set (players_list twin_tournament)"
    by (simp add: twin_tournament_def sample_tournament_def)
  have uniq: "\<forall>q \<in> set (players_list twin_tournament).
                display_name q = display_name (mk_player ''Bob'' ''Bay'') \<longrightarrow>
                q = mk_player ''Bob'' ''Bay''"
    by (simp add: twin_tournament_def sample_tournament_def twin_def mk_player_def display_name_def)
  have dict: "players_score (fst (calculate_leaderboard sample_params twin_tournament [])) =
     [(''Ann Arc'', 1 / 2), (''Bob Bay'', 0)]"
    by (simp add: calculate_leaderboard_def Let_def twin_sorted dict_of_items_def
          display_name_def mk_player_def twin_def)
  have "map_of (players_score (fst (calculate_leaderboard sample_params twin_tournament [])))
          (display_name (mk_player ''Ann'' ''Arc'')) =
        Some (snd (last (filter (\<lambda>e. display_name (fst e) = display_name (mk_player ''Ann'' ''Arc''))
                           (sorted_leaderboard sample_params twin_tournament []))))"
    using calculate_leaderboard_players_score [OF ann, of sample_params "[]"] by blast
  then have a: "map_of (players_score (fst (calculate_leaderboard sample_params twin_tournament [])))
          (display_name (mk_player ''Ann'' ''Arc'')) = Some (1 / 2)"
    by (simp add: twin_sorted display_name_def mk_player_def twin_def)
  have b: "map_of (players_score (fst (calculate_leaderboard sample_params twin_tournament [])))
     (display_name (mk_player ''Bob'' ''Bay'')) =
     Some (calculate_total_score sample_params (mk_player ''Bob'' ''Bay'')
             (rounds twin_tournament) [])"
    using calculate_leaderboard_players_score [OF bob, of sample_params "[]"] uniq by blast
  from tw bob dict a b show ?thesis by blast
qed

section \<open>Facts about play\_tournament\<close>

declare play_tournament.simps [simp del]

lemma emit_nil [simp]: "emit [] s = s"
  by (simp add: emit_def)

lemma advance_fields [simp]:
  "self (advance s) = self s" "trace (advance s) = trace s" "yes_no (advance s) = yes_no s"
  "input_lines (advance s) = input_lines s" "created (advance s) = created s"
  "players_json (advance s) = players_json s" "clock (advance s) = clock s"
  "current_round (tourn (advance s)) = current_round (tourn s) + 1"
  "players_list (tourn (advance s)) = players_list (tourn s)"
  "rounds (tourn (advance s)) = rounds (tourn s)"
  by (simp_all add: advance_def)

lemma save_fields [simp]:
  "self (save s) = self s" "trace (save s) = trace s @ [Add_tournament (tourn s)]"
  "yes_no (save s) = yes_no s" "tourn (save s) = tourn s"
  "input_lines (save s) = input_lines s" "created (save s) = created s"
  "players_json (save s) = players_json s" "clock (save s) = clock s"
  by (simp_all add: save_def)

lemma play_tournament_step [consumes 1, case_names skipped index_error round_failed last_round
    blocked declined continued]:
  assumes "play_tournament P s = (r, s')"
  obtains
    "\<not> current_round (tourn s) \<le> int (length (rounds (tourn s)))" "r = Returned ()" "s' = s"
  | "current_round (tourn s) \<le> int (length (rounds (tourn s)))"
    "py_index (rounds (tourn s)) (current_round (tourn s)) = None"
    "r = Raised IndexError" "s' = s"
  | i where "current_round (tourn s) \<le> int (length (rounds (tourn s)))"
    "py_index (rounds (tourn s)) (current_round (tourn s)) = Some i"
    "play_round P i s = (r, s')" "r \<noteq> Returned ()"
  | i s1 where "current_round (tourn s) \<le> int (length (rounds (tourn s)))"
    "py_index (rounds (tourn s)) (current_round (tourn s)) = Some i"
    "play_round P i s = (Returned (), s1)"
    "current_round (tourn s1) = int (length (rounds (tourn s1))) - 1"
    "r = Returned ()" "s' = save (advance s1)"
  | i s1 where "current_round (tourn s) \<le> int (length (rounds (tourn s)))"
    "py_index (rounds (tourn s)) (current_round (tourn s)) = Some i"
    "play_round P i s = (Returned (), s1)"
    "current_round (tourn s1) \<noteq> int (length (rounds (tourn s1))) - 1"
    "yes_no s1 = []" "r = Blocked" "s' = s1"
  | i s1 later where "current_round (tourn s) \<le> int (length (rounds (tourn s)))"
    "py_index (rounds (tourn s)) (current_round (tourn s)) = Some i"
    "play_round P i s = (Returned (), s1)"
    "current_round (tourn s1) \<noteq> int (length (rounds (tourn s1))) - 1"
    "yes_no s1 = False # later" "r = Returned ()"
    "s' = save (advance (emit [Ask_to_play_next_round False] (s1\<lparr>yes_no := later\<rparr>)))"
  | i s1 later where "current_round (tourn s) \<le> int (length (rounds (tourn s)))"
    "py_index (rounds (tourn s)) (current_round (tourn s)) = Some i"
    "play_round P i s = (Returned (), s1)"
    "current_round (tourn s1) \<noteq> int (length (rounds (tourn s1))) - 1"
    "yes_no s1 = True # later"
    "play_tournament P (advance (emit [Ask_to_play_next_round True] (s1\<lparr>yes_no := later\<rparr>))) = (r, s')"
proof (cases "current_round (tourn s) \<le> int (length (rounds (tourn s)))")
  case False
  with assms have "r = Returned () \<and> s' = s"
    by (simp add: play_tournament.simps [of P s])
  with False that(1) show ?thesis by blast
next
  case le: True
  show ?thesis
  proof (cases "py_index (rounds (tourn s)) (current_round (tourn s))")
    case None
    with assms le have "r = Raised IndexError \<and> s' = s"
      by (simp add: play_tournament.simps [of P s])
    with None le that(2) show ?thesis by blast
  next
    case (Some i)
    obtain r1 s1 where pr: "play_round P i s = (r1, s1)"
      by (cases "play_round P i s") auto
    show ?thesis
    proof (cases "r1 = Returned ()")
      case False
      with assms le Some pr have "r = r1 \<and> s' = s1"
        by (cases r1) (simp_all add: play_tournament.simps [of P s])
      with False le Some pr that(3) show ?thesis by blast
    next
      case ret: True
      show ?thesis
      proof (cases "current_round (tourn s1) = int (length (rounds (tourn s1))) - 1")
        case True
        with assms le Some pr ret have "r = Returned () \<and> s' = save (advance s1)"
          by (simp add: play_tournament.simps [of P s])
        moreover from pr ret have "play_round P i s = (Returned (), s1)" by simp
        ultimately show ?thesis using True le Some that(4) by blast
      next
        case nl: False
        show ?thesis
        proof (cases "yes_no s1")
          case Nil
          with assms le Some pr ret nl have "r = Blocked \<and> s' = s1"
            by (simp add: play_tournament.simps [of P s])
          moreover from pr ret have "play_round P i s = (Returned (), s1)" by simp
          ultimately show ?thesis using Nil le Some nl that(5) by blast
        next
          case (Cons a later)
          show ?thesis
          proof (cases a)
            case True
            with assms le Some pr ret nl Cons have
              "play_tournament P (advance (emit [Ask_to_play_next_round True] (s1\<lparr>yes_no := later\<rparr>))) = (r, s')"
              by (simp add: play_tournament.simps [of P s] Let_def)
            moreover from True Cons have "yes_no s1 = True # later" by simp
            moreover from pr ret have "play_round P i s = (Returned (), s1)" by simp
            ultimately show ?thesis using le Some nl that(7) by blast
          next
            case False
            with assms le Some pr ret nl Cons have
              "r = Returned () \<and> s' = save (advance (emit [Ask_to_play_next_round False] (s1\<lparr>yes_no := later\<rparr>)))"
              by (simp add: play_tournament.simps [of P s] Let_def)
            moreover from False Cons have "yes_no s1 = False # later" by simp
            moreover from pr ret have "play_round P i s = (Returned (), s1)" by simp
            ultimately show ?thesis using le Some nl that(6) by blast
          qed
        qed
      qed
    qed
  qed
qed

lemma play_tournament_induct' [case_names step]:
  assumes step: "\<And>P s.
    (\<And>i s1 later.
        \<lbrakk>current_round (tourn s) \<le> int (length (rounds (tourn s)));
         py_index (rounds (tourn s)) (current_round (tourn s)) = Some i;
         play_round P i s = (Returned (), s1);
         current_round (tourn s1) \<noteq> int (length (rounds (tourn s1))) - 1;
         yes_no s1 = True # later\<rbrakk>
        \<Longrightarrow> Q P (advance (emit [Ask_to_play_next_round True] (s1\<lparr>yes_no := later\<rparr>))))
    \<Longrightarrow> Q P s"
  shows "Q P s"
proof (induction P s rule: play_tournament.induct)
  case (1 P s)
  show ?case
  proof (rule step)
    fix i s1 later
    assume a: "current_round (tourn s) \<le> int (length (rounds (tourn s)))"
      "py_index (rounds (tourn s)) (current_round (tourn s)) = Some i"
      "play_round P i s = (Returned (), s1)"
      "current_round (tourn s1) \<noteq> int (length (rounds (tourn s1))) - 1"
      "yes_no s1 = True # later"
    show "Q P (advance (emit [Ask_to_play_next_round True] (s1\<lparr>yes_no := later\<rparr>)))"
      by (rule "1.IH" [OF a(1) a(2) a(3) [symmetric] refl a(4) a(5) refl]) simp
  qed
qed

text \<open>
  Kinds of events: a save (\<^verbatim>\<open>add_tournament\<close>), the title printed when a round begins,
  and what may appear in the trace of one round and of the whole loop, for a controller
  \<open>c\<close>, a player list \<open>pl\<close> and a round index \<open>k\<close> the run starts at.
\<close>

definition is_save :: "event \<Rightarrow> bool" where
  "is_save e = (case e of Add_tournament t \<Rightarrow> True | _ \<Rightarrow> False)"

definition is_round_title :: "event \<Rightarrow> bool" where
  "is_round_title e = (case e of Print_round_title n \<Rightarrow> True | _ \<Rightarrow> False)"

definition round_event :: "controller \<Rightarrow> player list \<Rightarrow> int \<Rightarrow> event \<Rightarrow> bool" where
  "round_event c pl k e =
     (case e of
        Print_round_title n \<Rightarrow> n = k + 1
      | Generate_pairs_for_round t \<Rightarrow> players_list t = pl \<and> current_round t = k
      | Calculate_leaderboard t prev \<Rightarrow>
          prev = previous_scores_of c \<and> players_list t = pl \<and> current_round t = k
      | Print_match a b x y \<Rightarrow> True
      | Print_final_ranking_header \<Rightarrow> True
      | Print_round_ranking_header n \<Rightarrow> True
      | Print_rank i f l sc \<Rightarrow> True
      | _ \<Rightarrow> False)"

definition loop_event :: "controller \<Rightarrow> player list \<Rightarrow> int \<Rightarrow> event \<Rightarrow> bool" where
  "loop_event c pl k e =
     (case e of
        Print_round_title n \<Rightarrow> k < n
      | Generate_pairs_for_round t \<Rightarrow> players_list t = pl \<and> k \<le> current_round t
      | Calculate_leaderboard t prev \<Rightarrow>
          prev = previous_scores_of c \<and> players_list t = pl \<and> k \<le> current_round t
      | Print_match a b x y \<Rightarrow> True
      | Print_final_ranking_header \<Rightarrow> True
      | Print_round_ranking_header n \<Rightarrow> True
      | Print_rank i f l sc \<Rightarrow> True
      | Ask_to_play_next_round b \<Rightarrow> True
      | Add_tournament t \<Rightarrow> players_list t = pl \<and> k < current_round t
      | _ \<Rightarrow> False)"

lemma is_save_simps [simp]:
  "is_save (Add_tournament t)" "\<not> is_save (Print_round_title n)"
  "\<not> is_save (Ask_to_play_next_round b)"
  by (simp_all add: is_save_def)

lemma loop_event_simps [simp]:
  "loop_event c pl k (Print_round_title n) = (k < n)"
  "loop_event c pl k (Ask_to_play_next_round b)"
  "loop_event c pl k (Add_tournament t) = (players_list t = pl \<and> k < current_round t)"
  by (simp_all add: loop_event_def)

lemma round_event_loop_event:
  "round_event c pl k e \<Longrightarrow> k0 \<le> k \<Longrightarrow> loop_event c pl k0 e"
  by (cases e) (auto simp: round_event_def loop_event_def)

lemma loop_event_mono:
  "loop_event c pl k e \<Longrightarrow> k0 \<le> k \<Longrightarrow> loop_event c pl k0 e"
  by (cases e) (auto simp: loop_event_def)

lemma round_event_not_save: "round_event c pl k e \<Longrightarrow> \<not> is_save e"
  by (cases e) (auto simp: round_event_def is_save_def)

lemma match_line_round_event: "is_match_line e \<Longrightarrow> round_event c pl k e"
  by (cases e) (auto simp: round_event_def is_match_line_def)

lemma ranking_round_event:
  "list_all (round_event c pl k) (snd (calculate_leaderboard P t prev))"
  by (auto simp: calculate_leaderboard_def Let_def round_event_def list_all_iff)

lemma generate_pairs_rounds:
  assumes "generate_pairs_for_round P t = Inr t'"
  shows "\<exists>i. py_index (rounds t) (current_round t) = Some i \<and>
             rounds t' = (rounds t)[i := (rounds t ! i)\<lparr>matches := pairing P t\<rparr>]"
  using assms by (auto simp: generate_pairs_for_round_def split: option.splits)

lemma set_start_time_rounds:
  "j \<noteq> i \<Longrightarrow> rounds (tourn (set_start_time P i s)) ! j = rounds (tourn s) ! j"
  "i < length (rounds (tourn s)) \<Longrightarrow>
     end_time (rounds (tourn (set_start_time P i s)) ! i) = end_time (rounds (tourn s) ! i)"
  "py_index (rounds (tourn (set_start_time P i s))) k = py_index (rounds (tourn s)) k"
  by (simp_all add: set_start_time_def py_index_def)

lemma set_end_time_rounds:
  "j \<noteq> i \<Longrightarrow> rounds (tourn (set_end_time P i s)) ! j = rounds (tourn s) ! j"
  "i < length (rounds (tourn s)) \<Longrightarrow> end_time (rounds (tourn (set_end_time P i s)) ! i) \<noteq> None"
  by (auto simp: set_end_time_def)

lemma play_round_returned:
  assumes run: "play_round P i s = (Returned (), s1)"
    and idx: "py_index (rounds (tourn s)) (current_round (tourn s)) = Some i"
  obtains t ms where
    "list_all is_match_line ms"
    "trace s1 = trace s @
       [Print_round_title (current_round (tourn s) + 1),
        Generate_pairs_for_round (tourn (set_start_time P i s))] @ ms @
       Calculate_leaderboard t (previous_scores_of (self s)) #
       snd (calculate_leaderboard P t (previous_scores_of (self s)))"
    "current_round t = current_round (tourn s)"
    "players_list t = players_list (tourn s)"
    "length (rounds t) = length (rounds (tourn s))"
    "end_time (rounds t ! i) = end_time (rounds (tourn s) ! i)"
    "end_time (rounds (tourn s1) ! i) \<noteq> None"
    "\<And>j. j \<noteq> i \<Longrightarrow> rounds t ! j = rounds (tourn s) ! j"
    "\<And>j. j \<noteq> i \<Longrightarrow> rounds (tourn s1) ! j = rounds (tourn s) ! j"
proof -
  from py_index_bounds [OF idx] have i: "i < length (rounds (tourn s))" by simp
  show ?thesis
  proof (cases "generate_pairs_for_round P (tourn (set_start_time P i s))")
    case (Inl e)
    with play_round_result [OF run] show ?thesis by simp
  next
    case (Inr t)
    from generate_pairs_rounds [OF Inr] idx
    have rt: "rounds t = (rounds (tourn (set_start_time P i s)))
                [i := (rounds (tourn (set_start_time P i s)) ! i)
                        \<lparr>matches := pairing P (tourn (set_start_time P i s))\<rparr>]"
      by (simp add: set_start_time_rounds(3))
    from generate_pairs_fields [OF Inr]
    have ft: "current_round t = current_round (tourn s)" "players_list t = players_list (tourn s)"
      "length (rounds t) = length (rounds (tourn s))"
      by simp_all
    from play_round_result [OF run] Inr obtain ms where ms: "list_all is_match_line ms"
      and s1: "s1 = set_end_time P i
                     (emit ([Print_round_title (current_round (tourn s) + 1),
                             Generate_pairs_for_round (tourn (set_start_time P i s))] @ ms @
                            Calculate_leaderboard t (previous_scores_of (self s)) #
                            snd (calculate_leaderboard P t (previous_scores_of (self s))))
                       ((set_start_time P i s)
                        \<lparr>tourn := fst (calculate_leaderboard P t (previous_scores_of (self s)))\<rparr>))"
      by auto
    have tr: "trace s1 = trace s @
       [Print_round_title (current_round (tourn s) + 1),
        Generate_pairs_for_round (tourn (set_start_time P i s))] @ ms @
       Calculate_leaderboard t (previous_scores_of (self s)) #
       snd (calculate_leaderboard P t (previous_scores_of (self s)))"
      by (simp add: s1)
    have e1: "end_time (rounds t ! i) = end_time (rounds (tourn s) ! i)"
      using i by (simp add: rt set_start_time_rounds(2))
    have e2: "end_time (rounds (tourn s1) ! i) \<noteq> None"
      unfolding s1 by (rule set_end_time_rounds(2)) (simp add: ft i)
    have f1: "rounds t ! j = rounds (tourn s) ! j" if "j \<noteq> i" for j
      using that by (simp add: rt set_start_time_rounds(1))
    have f2: "rounds (tourn s1) ! j = rounds (tourn s) ! j" if "j \<noteq> i" for j
      using that f1 [OF that] by (simp add: s1 set_end_time_rounds(1))
    from ms tr ft e1 e2 f1 f2 that show ?thesis by blast
  qed
qed

lemma play_round_events:
  assumes run: "play_round P i s = (r, s1)"
  shows "\<exists>new. trace s1 = trace s @ Print_round_title (current_round (tourn s) + 1) # new \<and>
           list_all (round_event (self s) (players_list (tourn s)) (current_round (tourn s))) new"
proof (cases "generate_pairs_for_round P (tourn (set_start_time P i s))")
  case (Inl e)
  with play_round_result [OF run] show ?thesis
    by (simp add: round_event_def)
next
  case (Inr t)
  from generate_pairs_fields [OF Inr]
  have ft: "current_round t = current_round (tourn s)" "players_list t = players_list (tourn s)"
    by simp_all
  from play_round_result [OF run] Inr obtain ms where ms: "list_all is_match_line ms"
    and alt: "trace s1 = trace s @ [Print_round_title (current_round (tourn s) + 1),
                 Generate_pairs_for_round (tourn (set_start_time P i s))] @ ms
       \<or> trace s1 = trace s @ [Print_round_title (current_round (tourn s) + 1),
                 Generate_pairs_for_round (tourn (set_start_time P i s))] @ ms @
              Calculate_leaderboard t (previous_scores_of (self s)) #
              snd (calculate_leaderboard P t (previous_scores_of (self s)))"
    by auto
  let ?ok = "round_event (self s) (players_list (tourn s)) (current_round (tourn s))"
  have g: "?ok (Generate_pairs_for_round (tourn (set_start_time P i s)))"
    by (simp add: round_event_def)
  have c: "?ok (Calculate_leaderboard t (previous_scores_of (self s)))"
    by (simp add: round_event_def ft)
  from ms have m: "list_all ?ok ms"
    by (auto simp: list_all_iff intro: match_line_round_event)
  have rk: "list_all ?ok (snd (calculate_leaderboard P t (previous_scores_of (self s))))"
    by (rule ranking_round_event)
  from alt show ?thesis
  proof
    assume "trace s1 = trace s @ [Print_round_title (current_round (tourn s) + 1),
                 Generate_pairs_for_round (tourn (set_start_time P i s))] @ ms"
    with g m show ?thesis by simp
  next
    assume "trace s1 = trace s @ [Print_round_title (current_round (tourn s) + 1),
                 Generate_pairs_for_round (tourn (set_start_time P i s))] @ ms @
              Calculate_leaderboard t (previous_scores_of (self s)) #
              snd (calculate_leaderboard P t (previous_scores_of (self s)))"
    with g m c rk show ?thesis by simp
  qed
qed

lemma play_tournament_events:
  "play_tournament P s = (r, s') \<Longrightarrow>
     self s' = self s \<and> players_list (tourn s') = players_list (tourn s) \<and>
     length (rounds (tourn s')) = length (rounds (tourn s)) \<and>
     current_round (tourn s) \<le> current_round (tourn s') \<and>
     input_lines s' = input_lines s \<and> created s' = created s \<and>
     players_json s' = players_json s \<and>
     (\<exists>new. trace s' = trace s @ new \<and>
        list_all (loop_event (self s) (players_list (tourn s)) (current_round (tourn s))) new)"
proof (induction P s arbitrary: r s' rule: play_tournament_induct')
  case (step P s)
  let ?ok = "loop_event (self s) (players_list (tourn s)) (current_round (tourn s))"
  have round: "\<exists>new. trace s1 = trace s @ new \<and> list_all ?ok new"
    if "play_round P i s = (r1, s1)" for i r1 s1
  proof -
    from play_round_events [OF that] obtain new where
      "trace s1 = trace s @ Print_round_title (current_round (tourn s) + 1) # new"
      "list_all (round_event (self s) (players_list (tourn s)) (current_round (tourn s))) new"
      by blast
    then show ?thesis
      by (intro exI [of _ "Print_round_title (current_round (tourn s) + 1) # new"])
         (auto simp: list_all_iff intro: round_event_loop_event)
  qed
  from step.prems show ?case
  proof (cases rule: play_tournament_step)
    case skipped
    then show ?thesis by simp
  next
    case index_error
    then show ?thesis by simp
  next
    case (round_failed i)
    from play_round_shape [OF round_failed(3)] round [OF round_failed(3)]
    show ?thesis by simp
  next
    case (last_round i s1)
    from round [OF last_round(3)] obtain new where
      "trace s1 = trace s @ new" "list_all ?ok new" by blast
    with play_round_shape [OF last_round(3)] last_round(6)
    show ?thesis by simp
  next
    case (blocked i s1)
    from play_round_shape [OF blocked(3)] round [OF blocked(3)] blocked(7)
    show ?thesis by simp
  next
    case (declined i s1 later)
    from round [OF declined(3)] obtain new where
      "trace s1 = trace s @ new" "list_all ?ok new" by blast
    with play_round_shape [OF declined(3)] declined(7)
    show ?thesis by simp
  next
    case (continued i s1 later)
    let ?n = "advance (emit [Ask_to_play_next_round True] (s1\<lparr>yes_no := later\<rparr>))"
    note sh = play_round_shape [OF continued(3)]
    from round [OF continued(3)] obtain new where
      new: "trace s1 = trace s @ new" "list_all ?ok new" by blast
    from step.IH [OF continued(1-5) continued(6)] obtain new' where
      ih: "self s' = self ?n" "players_list (tourn s') = players_list (tourn ?n)"
        "length (rounds (tourn s')) = length (rounds (tourn ?n))"
        "current_round (tourn ?n) \<le> current_round (tourn s')"
        "input_lines s' = input_lines ?n" "created s' = created ?n"
        "players_json s' = players_json ?n"
        "trace s' = trace ?n @ new'"
        "list_all (loop_event (self ?n) (players_list (tourn ?n)) (current_round (tourn ?n))) new'"
      by blast
    from ih(9) sh have "list_all ?ok new'"
      by (auto simp: list_all_iff intro: loop_event_mono)
    with new ih sh show ?thesis
      by (intro conjI exI [of _ "new @ Ask_to_play_next_round True # new'"])
         simp_all
  qed
qed

lemma play_round_no_save:
  assumes "play_round P i s = (r, s1)"
  shows "\<exists>new. trace s1 = trace s @ new \<and> \<not> list_ex is_save new"
proof -
  from play_round_events [OF assms] obtain new where
    "trace s1 = trace s @ Print_round_title (current_round (tourn s) + 1) # new"
    "list_all (round_event (self s) (players_list (tourn s)) (current_round (tourn s))) new"
    by blast
  then show ?thesis
    by (intro exI [of _ "Print_round_title (current_round (tourn s) + 1) # new"])
       (auto simp: list_all_iff list_ex_iff dest: round_event_not_save)
qed

lemma play_tournament_saves_once:
  "play_tournament P s = (Returned (), s') \<Longrightarrow>
   current_round (tourn s) \<le> int (length (rounds (tourn s))) \<Longrightarrow>
     \<exists>pre. trace s' = trace s @ pre @ [Add_tournament (tourn s')] \<and> \<not> list_ex is_save pre"
proof (induction P s arbitrary: s' rule: play_tournament_induct')
  case (step P s)
  from step.prems(1) show ?case
  proof (cases rule: play_tournament_step)
    case skipped
    with step.prems(2) show ?thesis by simp
  next
    case index_error
    then show ?thesis by simp
  next
    case (round_failed i)
    then show ?thesis by simp
  next
    case (last_round i s1)
    from play_round_no_save [OF last_round(3)] last_round(6)
    show ?thesis by auto
  next
    case (blocked i s1)
    then show ?thesis by simp
  next
    case (declined i s1 later)
    from play_round_no_save [OF declined(3)] obtain new where
      "trace s1 = trace s @ new" "\<not> list_ex is_save new" by blast
    with declined(7) show ?thesis
      by (intro exI [of _ "new @ [Ask_to_play_next_round False]"]) simp
  next
    case (continued i s1 later)
    let ?n = "advance (emit [Ask_to_play_next_round True] (s1\<lparr>yes_no := later\<rparr>))"
    note sh = play_round_shape [OF continued(3)]
    from py_index_bounds [OF continued(2)] sh
    have "current_round (tourn ?n) \<le> int (length (rounds (tourn ?n)))"
      by simp
    from step.IH [OF continued(1-5) continued(6) this] obtain pre where
      pre: "trace s' = trace ?n @ pre @ [Add_tournament (tourn s')]" "\<not> list_ex is_save pre"
      by blast
    from play_round_no_save [OF continued(3)] obtain new where
      new: "trace s1 = trace s @ new" "\<not> list_ex is_save new" by blast
    from pre new show ?thesis
      by (intro exI [of _ "new @ Ask_to_play_next_round True # pre"]) simp
  qed
qed

lemma py_index_nonneg: "0 \<le> k \<Longrightarrow> py_index xs k = Some i \<Longrightarrow> i = nat k"
  by (auto simp: py_index_def Let_def split: if_splits)

lemma play_tournament_rounds_frame:
  "play_tournament P s = (r, s') \<Longrightarrow> 0 \<le> current_round (tourn s) \<Longrightarrow>
     j < nat (current_round (tourn s)) \<Longrightarrow> rounds (tourn s') ! j = rounds (tourn s) ! j"
proof (induction P s arbitrary: r s' rule: play_tournament_induct')
  case (step P s)
  have round: "rounds (tourn s1) ! j = rounds (tourn s) ! j"
    if "play_round P i s = (r1, s1)"
      "py_index (rounds (tourn s)) (current_round (tourn s)) = Some i" for i r1 s1
  proof -
    from py_index_nonneg [OF step.prems(2) that(2)] step.prems(3) have ji: "j \<noteq> i" by simp
    show ?thesis
    proof (cases "generate_pairs_for_round P (tourn (set_start_time P i s))")
      case (Inl e)
      with play_round_result [OF that(1)] ji show ?thesis
        by (simp add: set_start_time_rounds(1))
    next
      case (Inr t)
      from generate_pairs_rounds [OF Inr] that(2)
      have "rounds t = (rounds (tourn (set_start_time P i s)))
                [i := (rounds (tourn (set_start_time P i s)) ! i)
                        \<lparr>matches := pairing P (tourn (set_start_time P i s))\<rparr>]"
        by (simp add: set_start_time_rounds(3))
      with ji have "rounds t ! j = rounds (tourn s) ! j"
        by (simp add: set_start_time_rounds(1))
      with play_round_result [OF that(1)] Inr ji show ?thesis
        by (auto simp: set_end_time_rounds(1))
    qed
  qed
  from step.prems(1) show ?case
  proof (cases rule: play_tournament_step)
    case skipped
    then show ?thesis by simp
  next
    case index_error
    then show ?thesis by simp
  next
    case (round_failed i)
    from round [OF round_failed(3) round_failed(2)] show ?thesis .
  next
    case (last_round i s1)
    from round [OF last_round(3) last_round(2)] last_round(6) show ?thesis by simp
  next
    case (blocked i s1)
    from round [OF blocked(3) blocked(2)] blocked(7) show ?thesis by simp
  next
    case (declined i s1 later)
    from round [OF declined(3) declined(2)] declined(7) show ?thesis by simp
  next
    case (continued i s1 later)
    let ?n = "advance (emit [Ask_to_play_next_round True] (s1\<lparr>yes_no := later\<rparr>))"
    note sh = play_round_shape [OF continued(3)]
    from sh step.prems(2,3) have "0 \<le> current_round (tourn ?n)" "j < nat (current_round (tourn ?n))"
      by simp_all
    from step.IH [OF continued(1-5) continued(6) this]
    have "rounds (tourn s') ! j = rounds (tourn ?n) ! j" .
    with round [OF continued(3) continued(2)] show ?thesis by simp
  qed
qed

lemma play_tournament_advances:
  assumes "play_tournament P s = (Returned (), s')"
    and "current_round (tourn s) \<le> int (length (rounds (tourn s)))"
  shows "current_round (tourn s) < current_round (tourn s')"
  using assms(1)
proof (cases rule: play_tournament_step)
  case skipped
  with assms(2) show ?thesis by simp
next
  case index_error
  then show ?thesis by simp
next
  case (round_failed i)
  then show ?thesis by simp
next
  case (last_round i s1)
  with play_round_shape(1) [OF last_round(3)] show ?thesis by simp
next
  case (blocked i s1)
  then show ?thesis by simp
next
  case (declined i s1 later)
  with play_round_shape(1) [OF declined(3)] show ?thesis by simp
next
  case (continued i s1 later)
  from play_tournament_events [OF continued(6)] play_round_shape(1) [OF continued(3)]
  show ?thesis by simp
qed



lemma play_tournament_first_event:
  assumes "play_tournament P s = (r, s')"
    and "py_index (rounds (tourn s)) (current_round (tourn s)) = Some i"
  shows "\<exists>new. trace s' = trace s @ Print_round_title (current_round (tourn s) + 1) # new"
proof -
  have first: "\<exists>new. trace s1 = trace s @ Print_round_title (current_round (tourn s) + 1) # new"
    if "play_round P i s = (r1, s1)" for i r1 s1
    using play_round_events [OF that] by blast
  from assms(1) show ?thesis
  proof (cases rule: play_tournament_step)
    case skipped
    with py_index_bounds [OF assms(2)] show ?thesis by simp
  next
    case index_error
    with assms(2) show ?thesis by simp
  next
    case (round_failed i)
    from first [OF round_failed(3)] show ?thesis .
  next
    case (last_round i s1)
    from first [OF last_round(3)] last_round(6) show ?thesis by auto
  next
    case (blocked i s1)
    from first [OF blocked(3)] blocked(7) show ?thesis by simp
  next
    case (declined i s1 later)
    from first [OF declined(3)] declined(7) show ?thesis by auto
  next
    case (continued i s1 later)
    from play_tournament_events [OF continued(6)] obtain new' where
      "trace s' = trace (advance (emit [Ask_to_play_next_round True] (s1\<lparr>yes_no := later\<rparr>))) @ new'"
      by blast
    with first [OF continued(3)] show ?thesis by auto
  qed
qed

text \<open>A call of \<open>calculate_leaderboard\<close>.\<close>

definition is_leaderboard_call :: "event \<Rightarrow> bool" where
  "is_leaderboard_call e = (case e of Calculate_leaderboard t prev \<Rightarrow> True | _ \<Rightarrow> False)"

text \<open>
  What holds of a call \<^verbatim>\<open>calculate_leaderboard(tournament, ...)\<close> in a run of the loop
  from tournament \<open>t0\<close> to tournament \<open>t1\<close>: the round being played is not before the one
  the run started at, its end time in the tournament passed is the one it had in \<open>t0\<close>,
  and it is set in \<open>t1\<close>.
\<close>

definition leaderboard_before_stamp :: "tournament \<Rightarrow> tournament \<Rightarrow> event \<Rightarrow> bool" where
  "leaderboard_before_stamp t0 t1 e =
     (case e of
        Calculate_leaderboard t prev \<Rightarrow>
          current_round t0 \<le> current_round t \<and>
          end_time (rounds t ! nat (current_round t)) =
            end_time (rounds t0 ! nat (current_round t)) \<and>
          end_time (rounds t1 ! nat (current_round t)) \<noteq> None
      | _ \<Rightarrow> True)"

lemma leaderboard_before_stamp_simps [simp]:
  "leaderboard_before_stamp t0 t1 (Calculate_leaderboard t prev) =
     (current_round t0 \<le> current_round t \<and>
      end_time (rounds t ! nat (current_round t)) = end_time (rounds t0 ! nat (current_round t)) \<and>
      end_time (rounds t1 ! nat (current_round t)) \<noteq> None)"
  "\<not> is_leaderboard_call e \<Longrightarrow> leaderboard_before_stamp t0 t1 e"
  by (cases e; simp add: leaderboard_before_stamp_def is_leaderboard_call_def)+

lemma is_leaderboard_call_simps [simp]:
  "is_leaderboard_call (Calculate_leaderboard t prev)"
  "\<not> is_leaderboard_call (Print_round_title n)"
  "\<not> is_leaderboard_call (Generate_pairs_for_round t)"
  "\<not> is_leaderboard_call (Ask_to_play_next_round b)"
  "\<not> is_leaderboard_call (Add_tournament t)"
  by (simp_all add: is_leaderboard_call_def)

lemma match_line_not_call: "is_match_line e \<Longrightarrow> \<not> is_leaderboard_call e"
  by (cases e) (simp_all add: is_match_line_def is_leaderboard_call_def)

lemma ranking_not_call:
  "e \<in> set (snd (calculate_leaderboard P t prev)) \<Longrightarrow> \<not> is_leaderboard_call e"
  by (auto simp: calculate_leaderboard_def Let_def is_leaderboard_call_def split: if_splits)

lemma match_line_before_stamp: "is_match_line e \<Longrightarrow> leaderboard_before_stamp t0 t1 e"
  by (simp add: match_line_not_call)

lemma ranking_before_stamp:
  "e \<in> set (snd (calculate_leaderboard P t prev)) \<Longrightarrow> leaderboard_before_stamp t0 t1 e"
  by (simp add: ranking_not_call)

lemma play_round_failed_no_call:
  assumes "play_round P i s = (r, s1)" "r \<noteq> Returned ()"
  shows "\<exists>new. trace s1 = trace s @ new \<and> list_all (\<lambda>e. \<not> is_leaderboard_call e) new"
proof (cases "generate_pairs_for_round P (tourn (set_start_time P i s))")
  case (Inl e)
  with play_round_result [OF assms(1)] show ?thesis by simp
next
  case (Inr t)
  with play_round_result [OF assms(1)] assms(2) obtain ms where
    "list_all is_match_line ms"
    "trace s1 = trace s @ [Print_round_title (current_round (tourn s) + 1),
        Generate_pairs_for_round (tourn (set_start_time P i s))] @ ms"
    by auto
  then show ?thesis
    by (auto simp: list_all_iff dest: match_line_not_call)
qed

text \<open>
  C5 (as amended). In a run of the loop that starts at a round index that is not negative,
  every call of \<open>calculate_leaderboard\<close> comes before the end time of the round being
  played is stamped: the tournament passed to it has, for that round, the end time the
  round had when the run began (none when it was unset), and the round's end time is set
  in the tournament the run ends with.
\<close>

theorem play_tournament_leaderboard_order:
  "play_tournament P s = (r, s') \<Longrightarrow> 0 \<le> current_round (tourn s) \<Longrightarrow>
     \<exists>new. trace s' = trace s @ new \<and>
           list_all (leaderboard_before_stamp (tourn s) (tourn s')) new"
proof (induction P s arbitrary: r s' rule: play_tournament_induct')
  case (step P s)
  let ?k = "current_round (tourn s)"
  have failed: "\<exists>new. trace s1 = trace s @ new \<and>
      list_all (leaderboard_before_stamp (tourn s) (tourn s1)) new"
    if "play_round P i s = (r1, s1)" "r1 \<noteq> Returned ()" for i r1 s1
  proof -
    from play_round_failed_no_call [OF that] obtain new where
      "trace s1 = trace s @ new" "list_all (\<lambda>e. \<not> is_leaderboard_call e) new" by blast
    then show ?thesis by (auto simp: list_all_iff)
  qed
  have returned: "\<exists>new. trace s1 = trace s @ new \<and>
      list_all (leaderboard_before_stamp (tourn s) T) new"
    if "play_round P i s = (Returned (), s1)"
      "py_index (rounds (tourn s)) ?k = Some i"
      "end_time (rounds T ! nat ?k) \<noteq> None" for i s1 T
  proof -
    from py_index_nonneg [OF step.prems(2) that(2)] have i: "i = nat ?k" .
    from that(1,2) show ?thesis
    proof (cases rule: play_round_returned)
      case (1 t ms)
      from 1(1) have "list_all (leaderboard_before_stamp (tourn s) T) ms"
        by (auto simp: list_all_iff intro: match_line_before_stamp)
      moreover have "list_all (leaderboard_before_stamp (tourn s) T)
          (snd (calculate_leaderboard P t (previous_scores_of (self s))))"
        by (auto simp: list_all_iff intro: ranking_before_stamp)
      moreover have "leaderboard_before_stamp (tourn s) T
          (Calculate_leaderboard t (previous_scores_of (self s)))"
        using 1(3,6) that(3) i by simp
      ultimately show ?thesis using 1(2) by simp
    qed
  qed
  from step.prems(1) show ?case
  proof (cases rule: play_tournament_step)
    case skipped
    then show ?thesis by simp
  next
    case index_error
    then show ?thesis by simp
  next
    case (round_failed i)
    from failed [OF round_failed(3,4)] show ?thesis .
  next
    case (last_round i s1)
    from py_index_nonneg [OF step.prems(2) last_round(2)] have i: "i = nat ?k" .
    from last_round(3,2) have "end_time (rounds (tourn s1) ! i) \<noteq> None"
      by (cases rule: play_round_returned)
    with i last_round(6) have "end_time (rounds (tourn s') ! nat ?k) \<noteq> None" by simp
    from returned [OF last_round(3,2) this] last_round(6) show ?thesis by auto
  next
    case (blocked i s1)
    from py_index_nonneg [OF step.prems(2) blocked(2)] have i: "i = nat ?k" .
    from blocked(3,2) have "end_time (rounds (tourn s1) ! i) \<noteq> None"
      by (cases rule: play_round_returned)
    with i blocked(7) have "end_time (rounds (tourn s') ! nat ?k) \<noteq> None" by simp
    from returned [OF blocked(3,2) this] blocked(7) show ?thesis by auto
  next
    case (declined i s1 later)
    from py_index_nonneg [OF step.prems(2) declined(2)] have i: "i = nat ?k" .
    from declined(3,2) have "end_time (rounds (tourn s1) ! i) \<noteq> None"
      by (cases rule: play_round_returned)
    with i declined(7) have "end_time (rounds (tourn s') ! nat ?k) \<noteq> None" by simp
    from returned [OF declined(3,2) this] declined(7) show ?thesis by auto
  next
    case (continued i s1 later)
    let ?n = "advance (emit [Ask_to_play_next_round True] (s1\<lparr>yes_no := later\<rparr>))"
    note sh = play_round_shape [OF continued(3)]
    from py_index_nonneg [OF step.prems(2) continued(2)] have i: "i = nat ?k" .
    from sh step.prems(2) have n0: "0 \<le> current_round (tourn ?n)" by simp
    from continued(3,2) have e1: "end_time (rounds (tourn s1) ! i) \<noteq> None"
      and fr: "\<And>j. j \<noteq> i \<Longrightarrow> rounds (tourn s1) ! j = rounds (tourn s) ! j"
      by (cases rule: play_round_returned; simp)+
    have "nat ?k < nat (current_round (tourn ?n))"
      using sh step.prems(2) by simp
    from play_tournament_rounds_frame [OF continued(6) n0 this] e1 i
    have "end_time (rounds (tourn s') ! nat ?k) \<noteq> None" by simp
    from returned [OF continued(3,2) this] obtain new where
      new: "trace s1 = trace s @ new" "list_all (leaderboard_before_stamp (tourn s) (tourn s')) new"
      by blast
    from step.IH [OF continued(1-5) continued(6) n0] obtain new' where
      ih: "trace s' = trace ?n @ new'"
        "list_all (leaderboard_before_stamp (tourn ?n) (tourn s')) new'"
      by blast
    have "leaderboard_before_stamp (tourn s) (tourn s') e"
      if "leaderboard_before_stamp (tourn ?n) (tourn s') e" for e
    proof (cases e)
      case (Calculate_leaderboard t prev)
      with that sh have k: "?k + 1 \<le> current_round t"
        and eq: "end_time (rounds t ! nat (current_round t)) =
                 end_time (rounds (tourn s1) ! nat (current_round t))"
        and fin: "end_time (rounds (tourn s') ! nat (current_round t)) \<noteq> None"
        by simp_all
      from k step.prems(2) i have "nat (current_round t) \<noteq> i" by simp
      from fr [OF this] eq k fin show ?thesis
        by (simp add: Calculate_leaderboard)
    qed (simp_all add: leaderboard_before_stamp_def)
    with ih(2) have "list_all (leaderboard_before_stamp (tourn s) (tourn s')) new'"
      by (auto simp: list_all_iff)
    with new ih(1) show ?thesis
      by (intro exI [of _ "new @ Ask_to_play_next_round True # new'"]) simp
  qed
qed


section \<open>Saving, resuming and the order of the end time\<close>

text \<open>
  The claim that every round played is followed by a save before the next round begins or
  the loop exits, as a property of a trace: after each round title there is a save before
  the next round title or the end of the trace.
\<close>

fun saved_after_each_round :: "event list \<Rightarrow> bool" where
  "saved_after_each_round [] = True"
| "saved_after_each_round (e # es) =
     ((if is_round_title e then list_ex is_save (takeWhile (\<lambda>x. \<not> is_round_title x) es)
       else True)
      \<and> saved_after_each_round es)"

text \<open>
  The claim that the end time is stamped before the leaderboard is computed, as a property
  of an event: a call of \<open>calculate_leaderboard\<close> is passed a tournament whose current
  round has its end time set.
\<close>

definition stamped_before_leaderboard :: "event \<Rightarrow> bool" where
  "stamped_before_leaderboard e =
     (case e of
        Calculate_leaderboard t prev \<Rightarrow>
          (case py_index (rounds t) (current_round t) of
             Some i \<Rightarrow> end_time (rounds t ! i) \<noteq> None
           | None \<Rightarrow> False)
      | _ \<Rightarrow> True)"

text \<open>The sample tournament played from its first round, the user asking for the second.\<close>

definition two_round_run :: "unit outcome \<times> system" where
  "two_round_run =
     play_tournament sample_params (sample_system (sample_tournament 0 six_players) [True])"



lemma two_round_run_calls: "list_ex is_leaderboard_call (trace (snd two_round_run))"
  by code_simp

lemma two_round_run_returns: "fst two_round_run = Returned ()"
  by code_simp

text \<open>
  C2 (as stated): in the sample run the user answers yes after round 1, and round 2 begins
  with nothing saved.
\<close>

theorem play_tournament_no_save_between_rounds:
  "\<not> saved_after_each_round (trace (snd two_round_run))"
  by code_simp

text \<open>
  C2 (as amended). \<open>play_tournament\<close> saves once per call, not once per round: when the
  loop has been entered and ends normally (after the last round, or when the user declines
  the next one), the trace it adds ends with the one save of the run, of the tournament as
  it is at the end, \<open>current_round\<close> advanced past the one the run began at; before it
  at least one round was played and nothing was saved, whatever the user answered.
\<close>

theorem play_tournament_saves_on_exit:
  assumes "play_tournament P s = (Returned (), s')"
    and "current_round (tourn s) \<le> int (length (rounds (tourn s)))"
  shows "(\<exists>pre. trace s' = trace s @ pre @ [Add_tournament (tourn s')] \<and>
               \<not> list_ex is_save pre \<and> list_ex is_round_title pre) \<and>
         current_round (tourn s) < current_round (tourn s')"
proof -
  from play_tournament_saves_once [OF assms] obtain pre where
    pre: "trace s' = trace s @ pre @ [Add_tournament (tourn s')]" "\<not> list_ex is_save pre"
    by blast
  from assms obtain i where "py_index (rounds (tourn s)) (current_round (tourn s)) = Some i"
    by (cases rule: play_tournament_step) auto
  from play_tournament_first_event [OF assms(1) this] obtain new where
    "trace s' = trace s @ Print_round_title (current_round (tourn s) + 1) # new" by blast
  with pre(1) have "pre @ [Add_tournament (tourn s')] =
      Print_round_title (current_round (tourn s) + 1) # new" by simp
  then have "list_ex is_round_title pre"
    by (cases pre) (simp_all add: is_round_title_def)
  with pre play_tournament_advances [OF assms] show ?thesis by blast
qed

theorem play_tournament_saves_on_exit_witness:
  "fst two_round_run = Returned () \<and>
   current_round (sample_tournament 0 six_players) \<le>
     int (length (rounds (sample_tournament 0 six_players))) \<and>
   (\<exists>pre. trace (snd two_round_run) =
            pre @ [Add_tournament (tourn (snd two_round_run))] \<and>
          \<not> list_ex is_save pre \<and> list_ex is_round_title pre) \<and>
   current_round (sample_tournament 0 six_players) < current_round (tourn (snd two_round_run))"
proof -
  have run: "play_tournament sample_params (sample_system (sample_tournament 0 six_players) [True]) =
      (Returned (), snd two_round_run)"
    using two_round_run_returns by (simp add: two_round_run_def prod_eq_iff)
  have le: "current_round (tourn (sample_system (sample_tournament 0 six_players) [True])) \<le>
      int (length (rounds (tourn (sample_system (sample_tournament 0 six_players) [True]))))"
    by (simp add: sample_system_def sample_tournament_def)
  from play_tournament_saves_on_exit [OF run le] two_round_run_returns le
  show ?thesis by (simp add: sample_system_def)
qed

text \<open>
  C5 (as stated): in the sample run the leaderboard of round 1 is computed on a tournament
  whose round 1 has no end time yet.
\<close>

theorem leaderboard_before_end_time_sample:
  "\<not> list_all stamped_before_leaderboard (trace (snd two_round_run))"
  by code_simp

theorem play_tournament_leaderboard_order_witness:
  "0 \<le> current_round (sample_tournament 0 six_players) \<and>
   (\<exists>new. trace (snd two_round_run) = new \<and> list_ex is_leaderboard_call new \<and>
           list_all (leaderboard_before_stamp (sample_tournament 0 six_players)
                       (tourn (snd two_round_run))) new)"
proof -
  have run: "play_tournament sample_params (sample_system (sample_tournament 0 six_players) [True]) =
      (fst two_round_run, snd two_round_run)"
    by (simp add: two_round_run_def)
  have nn: "0 \<le> current_round (tourn (sample_system (sample_tournament 0 six_players) [True]))"
    by (simp add: sample_system_def sample_tournament_def)
  from play_tournament_leaderboard_order [OF run nn] nn two_round_run_calls
  show ?thesis by (simp add: sample_system_def)
qed




section \<open>Facts about add\_players\_to\_tournament\<close>

lemma emit_input_lines_update [simp]:
  "(emit es s)\<lparr>input_lines := t\<rparr> = emit es (s\<lparr>input_lines := t\<rparr>)"
  by (simp add: emit_def)

lemma emit_created_update [simp]:
  "(emit es s)\<lparr>created := t\<rparr> = emit es (s\<lparr>created := t\<rparr>)"
  by (simp add: emit_def)

lemma count_num_players_fields [simp]:
  "tourn (count_num_players k s) = tourn s" "trace (count_num_players k s) = trace s"
  "yes_no (count_num_players k s) = yes_no s" "input_lines (count_num_players k s) = input_lines s"
  "created (count_num_players k s) = created s" "players_json (count_num_players k s) = players_json s"
  "players_score_attr (self (count_num_players k s)) = players_score_attr (self s)"
  "num_players (self (count_num_players k s)) = num_players (self s) + k"
  by (simp_all add: count_num_players_def)

lemma count_num_players_emit [simp]:
  "count_num_players k (emit es s) = emit es (count_num_players k s)"
  by (simp add: count_num_players_def emit_def)

text \<open>The body of the loop, choice by choice.\<close>

lemma registration_step_select:
  "registration_step P spl ''1'' idxs sel s =
     (case get_selected_player P spl (input_lines s) of
        (Returned (selected_player, index), out, rest) \<Rightarrow>
          if list_ex (\<lambda>player. same_name player selected_player) sel
          then Continue idxs sel
                 (emit ([Display_add_player_menu (num_players (self s)), Get_user_choice ''1''] @
                        out @ [Print_already_added]) (s\<lparr>input_lines := rest\<rparr>))
          else Continue (idxs @ [index]) (sel @ [selected_player])
                 (emit ([Display_add_player_menu (num_players (self s)), Get_user_choice ''1''] @
                        out @
                        Print_adding_player (firstname selected_player) (lastname selected_player) #
                        Print_registered_header # map player_line (sel @ [selected_player]))
                    (count_num_players 1 (s\<lparr>input_lines := rest\<rparr>)))
      | (Raised e, out, rest) \<Rightarrow>
          Stop (Raised e)
            (emit ([Display_add_player_menu (num_players (self s)), Get_user_choice ''1''] @ out)
               (s\<lparr>input_lines := rest\<rparr>))
      | (Blocked, out, rest) \<Rightarrow>
          Stop Blocked
            (emit ([Display_add_player_menu (num_players (self s)), Get_user_choice ''1''] @ out)
               (s\<lparr>input_lines := rest\<rparr>)))"
  by (simp add: registration_step_def Let_def split: prod.splits outcome.splits)

lemma registration_step_create:
  "registration_step P spl ''2'' idxs sel s =
     (case created s of
        [] \<Rightarrow> Stop Blocked
                (emit [Display_add_player_menu (num_players (self s)), Get_user_choice ''2''] s)
      | Some np # later \<Rightarrow>
          Continue idxs (sel @ [np])
            (emit ([Display_add_player_menu (num_players (self s)), Get_user_choice ''2'',
                    Create_new_player (Some np), Print_new_player np,
                    Print_adding_player (firstname np) (lastname np), Print_registered_header] @
                   map player_line (sel @ [np]))
               (count_num_players 1 (s\<lparr>created := later\<rparr>)))
      | None # later \<Rightarrow>
          Continue idxs sel
            (emit [Display_add_player_menu (num_players (self s)), Get_user_choice ''2'',
                   Create_new_player None] (s\<lparr>created := later\<rparr>)))"
  by (simp add: registration_step_def Let_def split: list.splits option.splits)

text \<open>
  Lines 243 to 246 after the menu and the choice 3: the selected players are appended to
  \<open>players_list\<close>, the tournament is saved, and the confirmation is printed.
\<close>

definition commit_players :: "player list \<Rightarrow> system \<Rightarrow> system" where
  "commit_players sel s =
     (let t = (tourn s)\<lparr>players_list := players_list (tourn s) @ sel\<rparr>
      in emit [Display_add_player_menu (num_players (self s)), Get_user_choice ''3'',
               Add_tournament t, Print_players_added] (s\<lparr>tourn := t\<rparr>))"

lemma registration_step_confirm:
  "6 \<le> length sel \<and> length sel mod 2 = 0 \<Longrightarrow>
   registration_step P spl ''3'' idxs sel s =
     (case yes_no s of
        [] \<Rightarrow> Stop Blocked (commit_players sel s)
      | answer # later \<Rightarrow>
          if answer
          then (case play_tournament P
                       (emit [Prompt_play_tournament True] ((commit_players sel s)\<lparr>yes_no := later\<rparr>)) of
                  (r, s4) \<Rightarrow> Stop r s4)
          else Stop (Returned ())
                 (emit [Prompt_play_tournament False] ((commit_players sel s)\<lparr>yes_no := later\<rparr>)))"
  by (simp add: registration_step_def commit_players_def Let_def split: list.splits)

lemma registration_step_refuse:
  "\<not> (6 \<le> length sel \<and> length sel mod 2 = 0) \<Longrightarrow>
   registration_step P spl ''3'' idxs sel s =
     Continue idxs sel
       (emit [Display_add_player_menu (num_players (self s)), Get_user_choice ''3'',
              Print_count_refused] s)"
  by (auto simp: registration_step_def Let_def)

lemma registration_step_quit:
  "registration_step P spl ''q'' idxs sel s =
     (case yes_no s of
        [] \<Rightarrow> Stop Blocked
                (emit [Display_add_player_menu (num_players (self s)), Get_user_choice ''q''] s)
      | answer # later \<Rightarrow>
          if answer
          then Stop (Returned ())
                 (emit [Display_add_player_menu (num_players (self s)), Get_user_choice ''q'',
                        Confirm_return_to_main_menu True] (s\<lparr>yes_no := later\<rparr>))
          else Continue idxs sel
                 (emit [Display_add_player_menu (num_players (self s)), Get_user_choice ''q'',
                        Confirm_return_to_main_menu False] (s\<lparr>yes_no := later\<rparr>)))"
  by (simp add: registration_step_def Let_def split: list.splits)

lemma registration_step_other:
  "c \<noteq> ''1'' \<Longrightarrow> c \<noteq> ''2'' \<Longrightarrow> c \<noteq> ''3'' \<Longrightarrow> c \<noteq> ''q'' \<Longrightarrow>
   registration_step P spl c idxs sel s =
     Continue idxs sel
       (emit [Display_add_player_menu (num_players (self s)), Get_user_choice c,
              Print_invalid_choice] s)"
  by (simp add: registration_step_def Let_def)

text \<open>
  Events that are neither a pairing call, a leaderboard call, a save nor the confirmation
  of a registration; the condition of lines 241 and 242 on the number of players; and what
  may appear in the trace of a registration, \<open>prev0\<close> being the previous scores of the
  controller.
\<close>

definition plain_event :: "event \<Rightarrow> bool" where
  "plain_event e =
     (case e of
        Generate_pairs_for_round t \<Rightarrow> False
      | Calculate_leaderboard t prev \<Rightarrow> False
      | Add_tournament t \<Rightarrow> False
      | Print_players_added \<Rightarrow> False
      | _ \<Rightarrow> True)"

definition valid_count :: "player list \<Rightarrow> bool" where
  "valid_count ps = (6 \<le> length ps \<and> length ps mod 2 = 0)"

definition registration_event :: "scores \<Rightarrow> event \<Rightarrow> bool" where
  "registration_event prev0 e =
     (case e of
        Generate_pairs_for_round t \<Rightarrow> valid_count (players_list t)
      | Calculate_leaderboard t prev \<Rightarrow> prev = prev0
      | Add_tournament t \<Rightarrow> valid_count (players_list t)
      | _ \<Rightarrow> True)"

lemma plain_event_simps [simp]:
  "plain_event (Display_add_player_menu n)" "plain_event (Get_user_choice c)"
  "plain_event Print_already_added" "plain_event (Print_adding_player f l)"
  "plain_event Print_registered_header" "plain_event (Create_new_player x)"
  "plain_event (Print_new_player p)" "plain_event (Prompt_play_tournament b)"
  "plain_event Print_count_refused" "plain_event (Confirm_return_to_main_menu b)"
  "plain_event Print_invalid_choice" "plain_event (Input_player_index i)"
  "plain_event Print_invalid_index" "plain_event Print_invalid_number"
  "plain_event Print_sorted_players_header" "plain_event (Print_indexed_player k l f)"
  "plain_event Print_already_registered_header" "plain_event Print_info_min6_even"
  "plain_event (player_line p)" "\<not> plain_event Print_players_added"
  by (simp_all add: plain_event_def player_line_def)

lemma plain_registration_event: "plain_event e \<Longrightarrow> registration_event prev0 e"
  by (cases e) (simp_all add: plain_event_def registration_event_def)

lemma plain_not_added: "plain_event e \<Longrightarrow> e \<noteq> Print_players_added"
  by auto

lemma loop_registration_event:
  "loop_event c pl k e \<Longrightarrow> valid_count pl \<Longrightarrow> registration_event (previous_scores_of c) e"
  by (cases e) (auto simp: loop_event_def registration_event_def)

lemma loop_event_not_added: "loop_event c pl k e \<Longrightarrow> e \<noteq> Print_players_added"
  by (auto simp: loop_event_def)

lemma registration_event_simps [simp]:
  "registration_event prev0 (Add_tournament t) = valid_count (players_list t)"
  "registration_event prev0 Print_players_added"
  by (simp_all add: registration_event_def)

lemma list_all_player_lines [simp]: "list_all plain_event (map player_line ps)"
  by (simp add: list_all_iff)

lemma get_selected_player_events:
  "get_selected_player P spl ls = (r, out, rest) \<Longrightarrow> list_all plain_event out"
proof (induction ls arbitrary: r out rest)
  case Nil
  then show ?case by simp
next
  case (Cons l ls)
  obtain r' out' rest' where rec: "get_selected_player P spl ls = (r', out', rest')"
    by (cases "get_selected_player P spl ls") auto
  from Cons.IH [OF rec] have "list_all plain_event out'" .
  with Cons.prems rec show ?case
    by (auto simp: Let_def split: if_splits sum.splits)
qed

lemma previous_scores_of_attr:
  "players_score_attr c' = players_score_attr c \<Longrightarrow> previous_scores_of c' = previous_scores_of c"
  by (simp add: previous_scores_of_def)

lemma registration_step_continue:
  assumes "registration_step P spl c idxs sel s = Continue idxs' sel' s1"
  shows "tourn s1 = tourn s \<and> players_score_attr (self s1) = players_score_attr (self s) \<and>
         (\<exists>new. trace s1 = trace s @ new \<and> list_all plain_event new)"
proof -
  consider "c = ''1''" | "c = ''2''" | "c = ''3''" | "c = ''q''"
    | "c \<noteq> ''1''" "c \<noteq> ''2''" "c \<noteq> ''3''" "c \<noteq> ''q''"
    by blast
  then show ?thesis
  proof cases
    case 1
    obtain r out rest where g: "get_selected_player P spl (input_lines s) = (r, out, rest)"
      by (cases "get_selected_player P spl (input_lines s)") auto
    from get_selected_player_events [OF g] have "list_all plain_event out" .
    with assms 1 g show ?thesis
      by (auto simp: registration_step_select split: outcome.splits if_splits)
  next
    case 2
    with assms show ?thesis
      by (auto simp: registration_step_create split: list.splits option.splits)
  next
    case 3
    show ?thesis
    proof (cases "6 \<le> length sel \<and> length sel mod 2 = 0")
      case True
      with assms 3 show ?thesis
        by (auto simp: registration_step_confirm split: list.splits if_splits prod.splits)
    next
      case False
      with assms 3 show ?thesis
        by (auto simp: registration_step_refuse)
    qed
  next
    case 4
    with assms show ?thesis
      by (auto simp: registration_step_quit split: list.splits if_splits)
  next
    case 5
    with assms show ?thesis
      by (auto simp: registration_step_other)
  qed
qed

lemma commit_players_fields [simp]:
  "tourn (commit_players sel s) = (tourn s)\<lparr>players_list := players_list (tourn s) @ sel\<rparr>"
  "self (commit_players sel s) = self s"
  "yes_no (commit_players sel s) = yes_no s"
  "trace (commit_players sel s) =
     trace s @ [Display_add_player_menu (num_players (self s)), Get_user_choice ''3'',
                Add_tournament ((tourn s)\<lparr>players_list := players_list (tourn s) @ sel\<rparr>),
                Print_players_added]"
  by (simp_all add: commit_players_def Let_def)

lemma registration_step_stop:
  assumes "registration_step P spl c idxs sel s = Stop r s1"
    and "players_list (tourn s) = []"
  shows "players_score_attr (self s1) = players_score_attr (self s) \<and>
         (\<exists>new. trace s1 = trace s @ new \<and>
            list_all (registration_event (previous_scores_of (self s))) new \<and>
            (Print_players_added \<notin> set new \<longrightarrow> tourn s1 = tourn s) \<and>
            (r = Returned () \<and> Print_players_added \<notin> set new \<longrightarrow>
               Confirm_return_to_main_menu True \<in> set new) \<and>
            (Print_players_added \<in> set new \<longrightarrow>
               c = ''3'' \<and> valid_count sel \<and> players_list (tourn s1) = sel))"
proof -
  consider "c = ''1''" | "c = ''2''" | "c = ''3''" | "c = ''q''"
    | "c \<noteq> ''1''" "c \<noteq> ''2''" "c \<noteq> ''3''" "c \<noteq> ''q''"
    by blast
  then show ?thesis
  proof cases
    case 1
    obtain r0 out rest where g: "get_selected_player P spl (input_lines s) = (r0, out, rest)"
      by (cases "get_selected_player P spl (input_lines s)") auto
    from get_selected_player_events [OF g] have out: "list_all plain_event out" .
    then have "list_all (registration_event (previous_scores_of (self s))) out"
      "Print_players_added \<notin> set out"
      by (auto simp: list_all_iff intro: plain_registration_event)
    with assms 1 g show ?thesis
      by (auto simp: registration_step_select registration_event_def
               split: outcome.splits if_splits)
  next
    case 2
    with assms show ?thesis
      by (auto simp: registration_step_create registration_event_def
               split: list.splits option.splits)
  next
    case 3
    show ?thesis
    proof (cases "6 \<le> length sel \<and> length sel mod 2 = 0")
      case False
      with assms 3 show ?thesis by (simp add: registration_step_refuse)
    next
      case True
      then have vc: "valid_count sel" by (simp add: valid_count_def)
      let ?head = "[Display_add_player_menu (num_players (self s)), Get_user_choice ''3'',
                Add_tournament ((tourn s)\<lparr>players_list := sel\<rparr>), Print_players_added]"
      have head: "list_all (registration_event (previous_scores_of (self s))) ?head"
        using vc by (simp add: registration_event_def)
      show ?thesis
      proof (cases "yes_no s")
        case Nil
        with assms 3 True have "r = Blocked" "s1 = commit_players sel s"
          by (simp_all add: registration_step_confirm)
        with assms(2) vc 3 head show ?thesis
          by (intro conjI exI [of _ ?head]) simp_all
      next
        case (Cons a later)
        show ?thesis
        proof (cases a)
          case False
          with assms 3 True Cons have "r = Returned ()"
            "s1 = emit [Prompt_play_tournament False] ((commit_players sel s)\<lparr>yes_no := later\<rparr>)"
            by (simp_all add: registration_step_confirm)
          with assms(2) vc 3 head show ?thesis
            by (intro conjI exI [of _ "?head @ [Prompt_play_tournament False]"])
               (simp_all add: registration_event_def)
        next
          case a: True
          let ?s3 = "emit [Prompt_play_tournament True] ((commit_players sel s)\<lparr>yes_no := later\<rparr>)"
          from assms 3 True Cons a have run: "play_tournament P ?s3 = (r, s1)"
            by (simp add: registration_step_confirm split: prod.splits)
          from play_tournament_events [OF run] assms(2) obtain new where
            f: "self s1 = self s" "players_list (tourn s1) = sel"
            and new: "trace s1 = trace ?s3 @ new"
              "list_all (loop_event (self s) sel (current_round (tourn s))) new"
            by auto
          from new(2) vc have ok: "list_all (registration_event (previous_scores_of (self s))) new"
            by (auto simp: list_all_iff intro: loop_registration_event)
          from new(1) assms(2) f vc 3 head ok show ?thesis
            by (intro conjI exI [of _ "?head @ Prompt_play_tournament True # new"])
               (simp_all add: registration_event_def)
        qed
      qed
    qed
  next
    case 4
    with assms show ?thesis
      by (auto simp: registration_step_quit registration_event_def split: list.splits if_splits)
  next
    case 5
    with assms show ?thesis
      by (auto simp: registration_step_other)
  qed
qed

lemma registration_loop_run:
  "registration_loop P spl choices idxs sel s = (r, s') \<Longrightarrow> players_list (tourn s) = [] \<Longrightarrow>
     players_score_attr (self s') = players_score_attr (self s) \<and>
     (\<exists>new. trace s' = trace s @ new \<and>
        list_all (registration_event (previous_scores_of (self s))) new \<and>
        (Print_players_added \<notin> set new \<longrightarrow> tourn s' = tourn s) \<and>
        (r = Returned () \<and> Print_players_added \<notin> set new \<longrightarrow>
           Confirm_return_to_main_menu True \<in> set new) \<and>
        (Print_players_added \<in> set new \<longrightarrow> valid_count (players_list (tourn s'))))"
proof (induction choices arbitrary: idxs sel s)
  case Nil
  then show ?case
    by (auto simp: registration_event_def)
next
  case (Cons c choices)
  show ?case
  proof (cases "registration_step P spl c idxs sel s")
    case (Continue idxs' sel' s1)
    from registration_step_continue [OF Continue] obtain new where
      f: "tourn s1 = tourn s" "players_score_attr (self s1) = players_score_attr (self s)"
      and new: "trace s1 = trace s @ new" "list_all plain_event new"
      by blast
    from Cons.prems(1) Continue have "registration_loop P spl choices idxs' sel' s1 = (r, s')"
      by simp
    from Cons.IH [OF this] f Cons.prems(2) obtain new' where
      ih: "players_score_attr (self s') = players_score_attr (self s)"
        "trace s' = trace s1 @ new'"
        "list_all (registration_event (previous_scores_of (self s1))) new'"
        "Print_players_added \<notin> set new' \<longrightarrow> tourn s' = tourn s"
        "Print_players_added \<in> set new' \<longrightarrow> valid_count (players_list (tourn s'))"
        "r = Returned () \<and> Print_players_added \<notin> set new' \<longrightarrow>
           Confirm_return_to_main_menu True \<in> set new'"
      by auto
    from new(2) have p: "list_all (registration_event (previous_scores_of (self s))) new"
      "Print_players_added \<notin> set new"
      by (auto simp: list_all_iff intro: plain_registration_event)
    from ih(3) previous_scores_of_attr [OF f(2)]
    have "list_all (registration_event (previous_scores_of (self s))) new'" by simp
    with ih new(1) p show ?thesis
      by (intro conjI exI [of _ "new @ new'"]) auto
  next
    case (Stop r1 s1)
    with Cons.prems(1) have "r = r1" "s' = s1" by simp_all
    with registration_step_stop [OF Stop Cons.prems(2)] show ?thesis by auto
  qed
qed

lemma print_indexed_events:
  "print_indexed i ds = (r, out) \<Longrightarrow> list_all plain_event out"
proof (induction ds arbitrary: i r out)
  case Nil
  then show ?case by simp
next
  case (Cons d ds)
  obtain r' out' where rec: "print_indexed (Suc i) ds = (r', out')"
    by (cases "print_indexed (Suc i) ds") auto
  from Cons.IH [OF rec] have "list_all plain_event out'" .
  with Cons.prems rec show ?case
    by (auto split: option.splits)
qed

lemma display_players_by_index_run:
  assumes "display_players_by_index s = (r, s0)"
  shows "\<exists>out. s0 = emit out s \<and> list_all plain_event out"
proof (cases "get_player_by_alphabetical_order (players_json s)")
  case (Inl e)
  with assms show ?thesis
    by (auto simp: display_players_by_index_def intro: exI [of _ "[]"])
next
  case (Inr sorted_players)
  obtain r' out where p: "print_indexed 0 sorted_players = (r', out)"
    by (cases "print_indexed 0 sorted_players") auto
  from print_indexed_events [OF p] have "list_all plain_event out" .
  with assms Inr p show ?thesis
    by (cases r') (auto simp: display_players_by_index_def
                       intro: exI [of _ "Print_sorted_players_header # out"])
qed

lemma clear_empty_players_list:
  "players_list t = [] \<Longrightarrow> t\<lparr>players_list := []\<rparr> = t"
  by (cases t) simp

lemma count_num_players_zero: "count_num_players 0 s = s"
  by (simp add: count_num_players_def)

lemma add_players_to_tournament_unfold:
  assumes "display_players_by_index s = (Returned spl, emit out s)"
  shows "add_players_to_tournament P choices s =
     registration_loop P spl choices [] (players_list (tourn s))
       (emit (out @
              (if players_list (tourn s) \<noteq> []
               then Print_already_registered_header # map player_line (players_list (tourn s))
               else []) @ [Print_info_min6_even])
          ((count_num_players (int (length (players_list (tourn s)))) s)
           \<lparr>tourn := (tourn s)\<lparr>players_list := []\<rparr>\<rparr>))"
proof (cases "players_list (tourn s) = []")
  case True
  then have "(tourn s)\<lparr>players_list := []\<rparr> = tourn s"
    by (rule clear_empty_players_list)
  then have eq: "s\<lparr>tourn := (tourn s)\<lparr>players_list := []\<rparr>\<rparr> = s"
    by simp
  from True assms show ?thesis
    by (simp add: add_players_to_tournament_def Let_def count_num_players_zero eq)
next
  case False
  with assms show ?thesis
    by (simp add: add_players_to_tournament_def Let_def)
qed

lemma add_players_to_tournament_run:
  assumes "add_players_to_tournament P choices s = (r, s')"
  shows "players_score_attr (self s') = players_score_attr (self s) \<and>
     (\<exists>new. trace s' = trace s @ new \<and>
        list_all (registration_event (previous_scores_of (self s))) new \<and>
        (Print_players_added \<notin> set new \<longrightarrow>
           tourn s' = tourn s \<or> tourn s' = (tourn s)\<lparr>players_list := []\<rparr>) \<and>
        (r = Returned () \<and> Print_players_added \<notin> set new \<longrightarrow>
           tourn s' = (tourn s)\<lparr>players_list := []\<rparr> \<and>
           Confirm_return_to_main_menu True \<in> set new) \<and>
        (Print_players_added \<in> set new \<longrightarrow> valid_count (players_list (tourn s'))))"
proof -
  obtain r0 s0 where d: "display_players_by_index s = (r0, s0)"
    by (cases "display_players_by_index s") auto
  from display_players_by_index_run [OF d] obtain out where
    out: "s0 = emit out s" "list_all plain_event out" by blast
  then have pout: "list_all (registration_event (previous_scores_of (self s))) out"
    "Print_players_added \<notin> set out"
    by (auto simp: list_all_iff intro: plain_registration_event)
  show ?thesis
  proof (cases "\<exists>spl. r0 = Returned spl")
    case False
    have "s' = s0 \<and> r \<noteq> Returned ()"
    proof (cases r0)
      case (Returned spl)
      with False show ?thesis by blast
    next
      case (Raised e)
      with assms have "(Raised e, s0) = (r, s')"
        by (simp only: add_players_to_tournament_def d prod.case outcome.case)
      then show ?thesis by auto
    next
      case Blocked
      with assms have "(Blocked, s0) = (r, s')"
        by (simp only: add_players_to_tournament_def d prod.case outcome.case)
      then show ?thesis by auto
    qed
    with out pout show ?thesis
      by (intro conjI exI [of _ out]) simp_all
  next
    case True
    then obtain spl where r0: "r0 = Returned spl" by blast
    let ?pl = "players_list (tourn s)"
    let ?intro = "(if ?pl \<noteq> [] then Print_already_registered_header # map player_line ?pl else [])
                  @ [Print_info_min6_even]"
    let ?s3 = "emit (out @ ?intro)
                 ((count_num_players (int (length ?pl)) s)\<lparr>tourn := (tourn s)\<lparr>players_list := []\<rparr>\<rparr>)"
    from d r0 out(1) have "display_players_by_index s = (Returned spl, emit out s)" by simp
    from add_players_to_tournament_unfold [OF this, of P choices] assms
    have "registration_loop P spl choices [] ?pl ?s3 = (r, s')" by simp
    from registration_loop_run [OF this] obtain new where
      n: "players_score_attr (self s') = players_score_attr (self s)"
        "trace s' = trace ?s3 @ new"
        "list_all (registration_event (previous_scores_of (self s))) new"
        "Print_players_added \<notin> set new \<longrightarrow> tourn s' = (tourn s)\<lparr>players_list := []\<rparr>"
        "Print_players_added \<in> set new \<longrightarrow> valid_count (players_list (tourn s'))"
        "r = Returned () \<and> Print_players_added \<notin> set new \<longrightarrow>
           Confirm_return_to_main_menu True \<in> set new"
      by (auto simp: previous_scores_of_def)
    have pi: "list_all (registration_event (previous_scores_of (self s))) ?intro"
      "Print_players_added \<notin> set ?intro"
      by (auto simp: list_all_iff player_line_def registration_event_def)
    from n(2) have tr: "trace s' = trace s @ (out @ ?intro @ new)" by simp
    from pout(1) pi(1) n(3)
    have ok: "list_all (registration_event (previous_scores_of (self s))) (out @ ?intro @ new)"
      by simp
    from pout(2) pi(2) have mem: "Print_players_added \<in> set (out @ ?intro @ new) \<longleftrightarrow>
        Print_players_added \<in> set new"
      by auto
    from n(6) have "r = Returned () \<and> Print_players_added \<notin> set new \<longrightarrow>
           Confirm_return_to_main_menu True \<in> set (out @ ?intro @ new)"
      by auto
    with n(1) tr ok n(4,5) show ?thesis
      unfolding mem [symmetric] by blast
  qed
qed

section \<open>Registration: the confirm gate, duplicates, and leaving with q\<close>

text \<open>A player registry of two entries, as \<open>display_players_by_index\<close> returns it.\<close>

definition sample_registry :: "player_data list" where
  "sample_registry =
     [[(''firstname'', ''Ann''), (''lastname'', ''Arc''), (''birth'', ''01-01-2000''),
       (''national chess ID'', ''AB12345'')],
      [(''firstname'', ''Bob''), (''lastname'', ''Bay''), (''birth'', ''01-01-2000''),
       (''national chess ID'', ''AB12345'')]]"

text \<open>
  C7. When the user chooses 1 and the player selected has the first name and last name of
  a player already in \<open>selected_players\<close>, the step prints that the player is already
  added and goes to the next iteration with the same selected players and indices: the
  controller (its player count included) and the tournament are unchanged, and the loop
  goes on with the remaining choices.
\<close>

theorem duplicate_selection_rejected:
  assumes "get_selected_player P spl (input_lines s) = (Returned (p, index), out, rest)"
    and "\<exists>q \<in> set sel. firstname q = firstname p \<and> lastname q = lastname p"
  shows "\<exists>s1. registration_step P spl ''1'' idxs sel s = Continue idxs sel s1 \<and>
           registration_loop P spl (''1'' # choices) idxs sel s =
             registration_loop P spl choices idxs sel s1 \<and>
           trace s1 = trace s @ [Display_add_player_menu (num_players (self s)),
                                Get_user_choice ''1''] @ out @ [Print_already_added] \<and>
           self s1 = self s \<and> tourn s1 = tourn s \<and> input_lines s1 = rest"
proof -
  let ?s1 = "emit ([Display_add_player_menu (num_players (self s)), Get_user_choice ''1''] @
                   out @ [Print_already_added]) (s\<lparr>input_lines := rest\<rparr>)"
  from assms(2) have "list_ex (\<lambda>player. same_name player p) sel"
    by (auto simp: list_ex_iff same_name_def)
  with assms(1) have step: "registration_step P spl ''1'' idxs sel s = Continue idxs sel ?s1"
    by (simp add: registration_step_select)
  then have "registration_loop P spl (''1'' # choices) idxs sel s =
             registration_loop P spl choices idxs sel ?s1"
    by simp
  with step show ?thesis
    by (intro exI [of _ ?s1]) simp
qed

text \<open>
  The user types x, then 7, then 1 at the index prompt: the first is no number, the second
  no index of the registry, the third selects Ann Arc, who is among the selected players.
\<close>

theorem duplicate_selection_rejected_witness:
  "get_selected_player sample_params sample_registry [line_of ''x'', line_of ''7'', line_of ''1''] =
     (Returned (mk_player ''Ann'' ''Arc'', 1),
      [Input_player_index (line_of ''x''), Print_invalid_number,
       Input_player_index (line_of ''7''), Print_invalid_index,
       Input_player_index (line_of ''1'')], []) \<and>
   (\<exists>q \<in> set [mk_player ''Bob'' ''Bay'', mk_player ''Ann'' ''Arc''].
      firstname q = ''Ann'' \<and> lastname q = ''Arc'') \<and>
   (\<exists>s1. registration_step sample_params sample_registry ''1'' [2]
            [mk_player ''Bob'' ''Bay'', mk_player ''Ann'' ''Arc'']
            ((sample_system (sample_tournament 0 []) [])
             \<lparr>input_lines := [line_of ''x'', line_of ''7'', line_of ''1'']\<rparr>) =
          Continue [2] [mk_player ''Bob'' ''Bay'', mk_player ''Ann'' ''Arc''] s1 \<and>
      trace s1 = [Display_add_player_menu 0, Get_user_choice ''1'',
                  Input_player_index (line_of ''x''), Print_invalid_number,
                  Input_player_index (line_of ''7''), Print_invalid_index,
                  Input_player_index (line_of ''1''), Print_already_added] \<and>
      self s1 = TournamentController_init \<and> tourn s1 = sample_tournament 0 [] \<and>
      input_lines s1 = [])"
proof -
  let ?typed = "[line_of ''x'', line_of ''7'', line_of ''1'']"
  let ?a = "(sample_system (sample_tournament 0 []) [])\<lparr>input_lines := ?typed\<rparr>"
  let ?sel = "[mk_player ''Bob'' ''Bay'', mk_player ''Ann'' ''Arc'']"
  let ?out = "[Input_player_index (line_of ''x''), Print_invalid_number,
       Input_player_index (line_of ''7''), Print_invalid_index,
       Input_player_index (line_of ''1'')]"
  have g: "get_selected_player sample_params sample_registry ?typed =
     (Returned (mk_player ''Ann'' ''Arc'', 1), ?out, [])"
    by (simp add: sample_registry_def sample_params_def latin1_numeric_type_def line_of_def
          isdigit_def str_int_def decimal_value_def player_of_data_def mk_player_def)
  then have g': "get_selected_player sample_params sample_registry (input_lines ?a) =
     (Returned (mk_player ''Ann'' ''Arc'', 1), ?out, [])"
    by (simp add: sample_system_def)
  have d: "\<exists>q \<in> set ?sel. firstname q = firstname (mk_player ''Ann'' ''Arc'') \<and>
                           lastname q = lastname (mk_player ''Ann'' ''Arc'')"
    by simp
  have f: "trace ?a = []" "self ?a = TournamentController_init"
    "tourn ?a = sample_tournament 0 []" "num_players (self ?a) = 0"
    by (simp_all add: sample_system_def TournamentController_init_def)
  from duplicate_selection_rejected [OF g' d, of "[2]" "[]"]
  have "\<exists>s1. registration_step sample_params sample_registry ''1'' [2] ?sel ?a =
          Continue [2] ?sel s1 \<and>
      trace s1 = [Display_add_player_menu 0, Get_user_choice ''1''] @ ?out @
                 [Print_already_added] \<and>
      self s1 = TournamentController_init \<and> tourn s1 = sample_tournament 0 [] \<and>
      input_lines s1 = []"
    unfolding f by (auto simp: TournamentController_init_def)
  moreover have "\<exists>q \<in> set ?sel. firstname q = ''Ann'' \<and> lastname q = ''Arc''"
    by (simp add: mk_player_def)
  ultimately show ?thesis using g by simp
qed

text \<open>
  A line that \<^verbatim>\<open>isdigit\<close> accepts and \<^verbatim>\<open>int\<close> refuses: the superscript two.
  \<open>get_selected_player\<close> raises ValueError at it, whatever is typed after, and the
  registration ends there.
\<close>

lemma get_selected_player_superscript:
  "get_selected_player sample_params sample_registry [[178], line_of ''1''] =
     (Raised ValueError, [Input_player_index [178]], [line_of ''1''])"
  by (simp add: sample_params_def latin1_numeric_type_def isdigit_def str_int_def
        decimal_value_def)

lemma registration_superscript_raises:
  "fst (add_players_to_tournament sample_params [''1'', ''q'']
          ((sample_system (sample_tournament 0 six_players) [True])
           \<lparr>input_lines := [[178], line_of ''1'']\<rparr>)) = Raised ValueError"
  by code_simp

text \<open>
  The sample tournament with its six players already registered, entered again through
  \<open>add_players_to_tournament\<close>: the user leaves with q and confirms; or confirms the
  registration with 3 and declines to play.
\<close>

definition quit_run :: "unit outcome \<times> system" where
  "quit_run =
     add_players_to_tournament sample_params [''q'']
       (sample_system (sample_tournament 0 six_players) [True])"

definition confirm_run :: "unit outcome \<times> system" where
  "confirm_run =
     add_players_to_tournament sample_params [''3'']
       (sample_system (sample_tournament 0 six_players) [False])"

lemma quit_run_value:
  "fst quit_run = Returned () \<and>
   trace (snd quit_run) =
     Print_sorted_players_header # Print_already_registered_header #
     map player_line six_players @
     [Print_info_min6_even, Display_add_player_menu 6, Get_user_choice ''q'',
      Confirm_return_to_main_menu True]"
  by code_simp

lemma confirm_run_value:
  "fst confirm_run = Returned () \<and> players_list (tourn (snd confirm_run)) = six_players \<and>
   list_ex is_save (trace (snd confirm_run))"
  by code_simp

text \<open>
  C6. With choice 3 and a number of selected players that is even and at least 6, the
  selected players are appended to \<open>players_list\<close>, the tournament is saved, and play
  begins if the user asks for it; the loop ends. With any other number the step prints the
  refusal and the loop goes on with the remaining choices, the selected players, the
  controller and the tournament unchanged. In any run of \<open>add_players_to_tournament\<close>,
  every pairing call and every save is for a tournament whose player list has an even
  length of at least 6, and the player list the run ends with is the one it began with,
  or empty, or such a list.
\<close>

theorem add_players_confirm_gate:
  "(valid_count sel \<longrightarrow>
      players_list (tourn (commit_players sel s)) = players_list (tourn s) @ sel \<and>
      trace (commit_players sel s) =
        trace s @ [Display_add_player_menu (num_players (self s)), Get_user_choice ''3'',
                   Add_tournament (tourn (commit_players sel s)), Print_players_added] \<and>
      registration_loop P spl (''3'' # choices) idxs sel s =
        (case yes_no s of
           [] \<Rightarrow> (Blocked, commit_players sel s)
         | answer # later \<Rightarrow>
             if answer
             then play_tournament P
                    (emit [Prompt_play_tournament True] ((commit_players sel s)\<lparr>yes_no := later\<rparr>))
             else (Returned (),
                   emit [Prompt_play_tournament False] ((commit_players sel s)\<lparr>yes_no := later\<rparr>)))) \<and>
   (\<not> valid_count sel \<longrightarrow>
      registration_loop P spl (''3'' # choices) idxs sel s =
        registration_loop P spl choices idxs sel
          (emit [Display_add_player_menu (num_players (self s)), Get_user_choice ''3'',
                 Print_count_refused] s)) \<and>
   (add_players_to_tournament P choices0 s0 = (r, s') \<longrightarrow>
      (\<exists>new. trace s' = trace s0 @ new \<and>
         (\<forall>t. Generate_pairs_for_round t \<in> set new \<longrightarrow> valid_count (players_list t)) \<and>
         (\<forall>t. Add_tournament t \<in> set new \<longrightarrow> valid_count (players_list t))) \<and>
      (players_list (tourn s') = players_list (tourn s0) \<or> players_list (tourn s') = [] \<or>
       valid_count (players_list (tourn s'))))"
proof (intro conjI impI)
  assume v: "valid_count sel"
  show "players_list (tourn (commit_players sel s)) = players_list (tourn s) @ sel"
    by simp
  show "trace (commit_players sel s) =
        trace s @ [Display_add_player_menu (num_players (self s)), Get_user_choice ''3'',
                   Add_tournament (tourn (commit_players sel s)), Print_players_added]"
    by simp
  from v have c: "6 \<le> length sel \<and> length sel mod 2 = 0"
    by (simp add: valid_count_def)
  show "registration_loop P spl (''3'' # choices) idxs sel s =
        (case yes_no s of
           [] \<Rightarrow> (Blocked, commit_players sel s)
         | answer # later \<Rightarrow>
             if answer
             then play_tournament P
                    (emit [Prompt_play_tournament True] ((commit_players sel s)\<lparr>yes_no := later\<rparr>))
             else (Returned (),
                   emit [Prompt_play_tournament False] ((commit_players sel s)\<lparr>yes_no := later\<rparr>)))"
    by (simp add: registration_step_confirm [OF c] split: list.splits prod.splits)
next
  assume "\<not> valid_count sel"
  then have "\<not> (6 \<le> length sel \<and> length sel mod 2 = 0)"
    by (simp add: valid_count_def)
  then show "registration_loop P spl (''3'' # choices) idxs sel s =
        registration_loop P spl choices idxs sel
          (emit [Display_add_player_menu (num_players (self s)), Get_user_choice ''3'',
                 Print_count_refused] s)"
    by (simp add: registration_step_refuse)
next
  assume run: "add_players_to_tournament P choices0 s0 = (r, s')"
  from add_players_to_tournament_run [OF run] obtain new where
    new: "trace s' = trace s0 @ new"
      "list_all (registration_event (previous_scores_of (self s0))) new"
      "Print_players_added \<notin> set new \<longrightarrow>
         tourn s' = tourn s0 \<or> tourn s' = (tourn s0)\<lparr>players_list := []\<rparr>"
      "Print_players_added \<in> set new \<longrightarrow> valid_count (players_list (tourn s'))"
    by blast
  have "valid_count (players_list t)" if "Generate_pairs_for_round t \<in> set new" for t
  proof -
    from new(2) that have "registration_event (previous_scores_of (self s0))
        (Generate_pairs_for_round t)"
      by (simp add: list_all_iff)
    then show ?thesis by (simp add: registration_event_def)
  qed
  moreover have "valid_count (players_list t)" if "Add_tournament t \<in> set new" for t
  proof -
    from new(2) have "\<forall>e \<in> set new. registration_event (previous_scores_of (self s0)) e"
      by (simp only: list_all_iff)
    from bspec [OF this that] show ?thesis by simp
  qed
  ultimately show "\<exists>new. trace s' = trace s0 @ new \<and>
         (\<forall>t. Generate_pairs_for_round t \<in> set new \<longrightarrow> valid_count (players_list t)) \<and>
         (\<forall>t. Add_tournament t \<in> set new \<longrightarrow> valid_count (players_list t))"
    using new(1) by blast
  from new(3,4) show "players_list (tourn s') = players_list (tourn s0) \<or>
      players_list (tourn s') = [] \<or> valid_count (players_list (tourn s'))"
    by (cases "Print_players_added \<in> set new") auto
qed

theorem add_players_confirm_gate_witness:
  "valid_count six_players \<and> \<not> valid_count (take 5 six_players) \<and>
   registration_loop sample_params [] [''3''] [] six_players
     (sample_system (sample_tournament 0 []) [False]) =
     (Returned (),
      emit [Prompt_play_tournament False]
        ((commit_players six_players (sample_system (sample_tournament 0 []) [False]))
         \<lparr>yes_no := []\<rparr>)) \<and>
   players_list (tourn (commit_players six_players (sample_system (sample_tournament 0 []) [False])))
     = six_players \<and>
   registration_loop sample_params [] [''3''] [] (take 5 six_players)
     (sample_system (sample_tournament 0 []) [False]) =
     (Blocked,
      emit [Display_add_player_menu 0, Get_user_choice ''3'', Print_count_refused,
            Display_add_player_menu 0]
        (sample_system (sample_tournament 0 []) [False])) \<and>
   fst confirm_run = Returned () \<and> players_list (tourn (snd confirm_run)) = six_players \<and>
   (\<exists>new. trace (snd confirm_run) = new \<and> list_ex is_save new \<and>
      list_all (\<lambda>e. case e of Add_tournament t \<Rightarrow> valid_count (players_list t) | _ \<Rightarrow> True) new)"
proof -
  let ?bare = "sample_system (sample_tournament 0 []) [False]"
  let ?full = "sample_system (sample_tournament 0 six_players) [False]"
  have v: "valid_count six_players"
    by (simp add: valid_count_def six_players_def)
  have nv: "\<not> valid_count (take 5 six_players)"
    by (simp add: valid_count_def six_players_def)
  have yn: "yes_no ?bare = [False]" "num_players (self ?bare) = 0" "players_list (tourn ?bare) = []"
    "trace ?full = []"
    by (simp_all add: sample_system_def TournamentController_init_def sample_tournament_def)
  note gate = add_players_confirm_gate [of six_players ?bare sample_params "[]" "[]" "[]"
      "[''3'']" ?full "fst confirm_run" "snd confirm_run"]
  note gate5 = add_players_confirm_gate [of "take 5 six_players" ?bare sample_params "[]" "[]" "[]"
      "[''3'']" ?full "fst confirm_run" "snd confirm_run"]
  from gate v yn have 1: "registration_loop sample_params [] [''3''] [] six_players ?bare =
     (Returned (), emit [Prompt_play_tournament False] ((commit_players six_players ?bare)\<lparr>yes_no := []\<rparr>))"
    by simp
  from yn(3) have 2: "players_list (tourn (commit_players six_players ?bare)) = six_players"
    by simp
  from gate5 nv yn have 3: "registration_loop sample_params [] [''3''] [] (take 5 six_players) ?bare =
     (Blocked, emit [Display_add_player_menu 0, Get_user_choice ''3'', Print_count_refused,
            Display_add_player_menu 0] ?bare)"
    by simp
  have run: "add_players_to_tournament sample_params [''3''] ?full = (fst confirm_run, snd confirm_run)"
    by (simp add: confirm_run_def)
  from gate run yn(4) have "\<forall>t. Add_tournament t \<in> set (trace (snd confirm_run)) \<longrightarrow>
      valid_count (players_list t)"
    by auto
  then have 4: "list_all (\<lambda>e. case e of Add_tournament t \<Rightarrow> valid_count (players_list t) | _ \<Rightarrow> True)
      (trace (snd confirm_run))"
    by (auto simp: list_all_iff split: event.splits)
  from v nv 1 2 3 4 confirm_run_value show ?thesis by simp
qed

text \<open>
  C10. When \<open>add_players_to_tournament\<close> is entered with a tournament that has players
  and returns without the registration having been confirmed, the user has left through
  q and its confirmation, and the tournament is the one passed in with \<open>players_list\<close>
  empty: the players it had are not put back.
\<close>

theorem quit_leaves_players_list_empty:
  assumes "add_players_to_tournament P choices s = (Returned (), s')"
    and "players_list (tourn s) \<noteq> []"
    and "trace s' = trace s @ new"
    and "Print_players_added \<notin> set new"
  shows "players_list (tourn s') = [] \<and> tourn s' = (tourn s)\<lparr>players_list := []\<rparr> \<and>
         Confirm_return_to_main_menu True \<in> set new"
proof -
  from add_players_to_tournament_run [OF assms(1)] obtain new' where
    n: "trace s' = trace s @ new'"
      "Print_players_added \<notin> set new' \<longrightarrow>
         tourn s' = (tourn s)\<lparr>players_list := []\<rparr> \<and>
         Confirm_return_to_main_menu True \<in> set new'"
    by auto
  from n(1) assms(3) have "new' = new" by simp
  with n(2) assms(4) show ?thesis by simp
qed

theorem quit_leaves_players_list_empty_witness:
  "fst quit_run = Returned () \<and>
   players_list (tourn (sample_system (sample_tournament 0 six_players) [True])) \<noteq> [] \<and>
   Print_players_added \<notin> set (trace (snd quit_run)) \<and>
   players_list (tourn (snd quit_run)) = [] \<and>
   Confirm_return_to_main_menu True \<in> set (trace (snd quit_run))"
proof -
  let ?s = "sample_system (sample_tournament 0 six_players) [True]"
  from quit_run_value have run: "add_players_to_tournament sample_params [''q''] ?s =
      (Returned (), snd quit_run)"
    by (simp add: quit_run_def prod_eq_iff)
  have ne: "players_list (tourn ?s) \<noteq> []"
    by (simp add: sample_system_def sample_tournament_def six_players_def)
  have tr: "trace (snd quit_run) = trace ?s @ trace (snd quit_run)"
    by (simp add: sample_system_def)
  from quit_run_value have na: "Print_players_added \<notin> set (trace (snd quit_run))"
    by (auto simp: player_line_def)
  from quit_leaves_players_list_empty [OF run ne tr na] quit_run_value ne na
  show ?thesis by simp
qed

text \<open>
  C9. \<open>__init__\<close> does not set the attribute \<open>players_score\<close>, and no method sets it:
  played, registered or resumed from a controller without the attribute, the controller
  still lacks it at the end, and every call of \<open>calculate_leaderboard\<close> in the run was
  passed the empty dict as \<open>previous_scores\<close>.
\<close>

theorem previous_scores_always_empty:
  assumes "players_score_attr (self s) = None"
  shows "players_score_attr TournamentController_init = None \<and>
     (play_tournament P s = (r, s') \<longrightarrow>
        players_score_attr (self s') = None \<and>
        (\<exists>new. trace s' = trace s @ new \<and>
           (\<forall>t prev. Calculate_leaderboard t prev \<in> set new \<longrightarrow> prev = []))) \<and>
     (add_players_to_tournament P choices s = (r, s') \<longrightarrow>
        players_score_attr (self s') = None \<and>
        (\<exists>new. trace s' = trace s @ new \<and>
           (\<forall>t prev. Calculate_leaderboard t prev \<in> set new \<longrightarrow> prev = []))) \<and>
     (resume_tournament P chosen s = (r, s') \<longrightarrow>
        players_score_attr (self s') = None \<and>
        (\<exists>new. trace s' = trace s @ new \<and>
           (\<forall>t prev. Calculate_leaderboard t prev \<in> set new \<longrightarrow> prev = [])))"
proof -
  from assms have empty: "previous_scores_of (self s) = []"
    by (simp add: previous_scores_of_def)
  have play: "players_score_attr (self s1) = None \<and>
        (\<exists>new. trace s1 = trace s0 @ new \<and>
           (\<forall>t prev. Calculate_leaderboard t prev \<in> set new \<longrightarrow> prev = []))"
    if "play_tournament P s0 = (r, s1)" "self s0 = self s" for s0 s1
  proof -
    from play_tournament_events [OF that(1)] that(2) obtain new where
      new: "self s1 = self s" "trace s1 = trace s0 @ new"
        "list_all (loop_event (self s) (players_list (tourn s0)) (current_round (tourn s0))) new"
      by auto
    have "prev = []" if "Calculate_leaderboard t prev \<in> set new" for t prev
    proof -
      from new(3) that have "loop_event (self s) (players_list (tourn s0))
          (current_round (tourn s0)) (Calculate_leaderboard t prev)"
        by (simp add: list_all_iff)
      with empty show ?thesis by (simp add: loop_event_def)
    qed
    with new(1,2) assms show ?thesis by auto
  qed
  have reg: "players_score_attr (self s') = None \<and>
        (\<exists>new. trace s' = trace s @ new \<and>
           (\<forall>t prev. Calculate_leaderboard t prev \<in> set new \<longrightarrow> prev = []))"
    if "add_players_to_tournament P choices s = (r, s')"
  proof -
    from add_players_to_tournament_run [OF that] obtain new where
      new: "players_score_attr (self s') = players_score_attr (self s)"
        "trace s' = trace s @ new"
        "list_all (registration_event (previous_scores_of (self s))) new"
      by blast
    have "prev = []" if "Calculate_leaderboard t prev \<in> set new" for t prev
    proof -
      from new(3) that have "registration_event (previous_scores_of (self s))
          (Calculate_leaderboard t prev)"
        by (simp add: list_all_iff)
      with empty show ?thesis by (simp add: registration_event_def)
    qed
    with new(1,2) assms show ?thesis by auto
  qed
  have res: "players_score_attr (self s') = None \<and>
        (\<exists>new. trace s' = trace s @ new \<and>
           (\<forall>t prev. Calculate_leaderboard t prev \<in> set new \<longrightarrow> prev = []))"
    if "resume_tournament P chosen s = (r, s')"
  proof (cases chosen)
    case None
    with that assms show ?thesis by (auto simp: resume_tournament_def)
  next
    case (Some t)
    with that have "play_tournament P (s\<lparr>tourn := t\<rparr>) = (r, s')"
      by (simp add: resume_tournament_def)
    from play [OF this] show ?thesis by simp
  qed
  from play [of s s'] reg res show ?thesis
    by (simp add: TournamentController_init_def)
qed

theorem previous_scores_always_empty_witness:
  "players_score_attr (self (sample_system (sample_tournament 0 six_players) [True])) = None \<and>
   players_score_attr (self (snd two_round_run)) = None \<and>
   (\<exists>new. trace (snd two_round_run) = new \<and> list_ex is_leaderboard_call new \<and>
      list_all (\<lambda>e. case e of Calculate_leaderboard t prev \<Rightarrow> prev = [] | _ \<Rightarrow> True) new)"
proof -
  let ?s = "sample_system (sample_tournament 0 six_players) [True]"
  have none: "players_score_attr (self ?s) = None"
    by (simp add: sample_system_def TournamentController_init_def)
  have run: "play_tournament sample_params ?s = (fst two_round_run, snd two_round_run)"
    by (simp add: two_round_run_def)
  have tr: "trace ?s = []" by (simp add: sample_system_def)
  from previous_scores_always_empty [OF none, of sample_params "fst two_round_run"
      "snd two_round_run" "[]" None] run tr
  have a: "players_score_attr (self (snd two_round_run)) = None"
    and b: "\<forall>t prev. Calculate_leaderboard t prev \<in> set (trace (snd two_round_run)) \<longrightarrow> prev = []"
    by auto
  from b have "list_all (\<lambda>e. case e of Calculate_leaderboard t prev \<Rightarrow> prev = [] | _ \<Rightarrow> True)
      (trace (snd two_round_run))"
    by (auto simp: list_all_iff split: event.splits)
  with none a two_round_run_calls show ?thesis by simp
qed

end
